theory Spec2Isabelle
  imports Complex_Main "HOL-Library.Char_ord" "HOL-Library.List_Lexorder"
    "HOL-Library.Product_Lexorder" "HOL-Library.Sublist" "HOL-Library.Multiset"
begin

section \<open>Errors\<close>

text \<open>
  The exceptions the modelled code can raise: numpy's \<^verbatim>\<open>ValueError\<close> when \<^verbatim>\<open>np.dot\<close> is given
  vectors of different lengths, and sqlite3's \<^verbatim>\<open>IntegrityError\<close> when an INSERT violates
  \<^verbatim>\<open>UNIQUE(employee_id, date, time_in)\<close>.
\<close>

datatype error = ValueError | IntegrityError

section \<open>Matcher (app.py)\<close>

subsection \<open>Gallery and cosine similarity\<close>

text \<open>
  An embedding is a vector of floats; the model computes over the reals, so rounding is
  not part of it. An entry of \<^verbatim>\<open>employees_cache\<close> is a dict with the five keys below; the
  cache itself is a dict, iterated in insertion order, hence an association list.
\<close>

type_synonym embedding = "real list"

record emp_data =
  c_employee_id :: string
  c_name :: string
  c_department :: string
  c_position :: string
  c_embedding :: embedding

type_synonym employees_cache = "(string \<times> emp_data) list"

record match =
  m_employee_id :: string
  m_name :: string
  m_similarity :: real
  m_department :: string
  m_position :: string

text \<open>\<^verbatim>\<open>np.dot\<close> of two one-dimensional vectors: shapes that differ raise.\<close>

definition np_dot :: "embedding \<Rightarrow> embedding \<Rightarrow> error + real" where
  "np_dot a b =
     (if length a = length b then Inr (sum_list (map2 (*) a b)) else Inl ValueError)"

text \<open>\<^verbatim>\<open>np.linalg.norm\<close>: the Euclidean norm.\<close>

definition np_norm :: "embedding \<Rightarrow> real" where
  "np_norm a = sqrt (sum_list (map (\<lambda>x. x * x) a))"

text \<open>
  \<^verbatim>\<open>np.dot(a, b) / (np.linalg.norm(a) * np.linalg.norm(b))\<close>. A zero denominator does not
  raise in numpy: the quotient is \<^verbatim>\<open>nan\<close>, written \<open>None\<close> here (over the reals the
  numerator is then zero as well).
\<close>

definition cosine_similarity :: "embedding \<Rightarrow> embedding \<Rightarrow> error + real option" where
  "cosine_similarity a b =
     (case np_dot a b of
        Inl e \<Rightarrow> Inl e
      | Inr d \<Rightarrow>
          (let n = np_norm a * np_norm b
           in if n = 0 then Inr None else Inr (Some (d / n))))"

subsection \<open>compare_faces\<close>

text \<open>
  The inner loop over \<^verbatim>\<open>employees_cache.items()\<close>, with the loop state
  \<open>(best_match, best_similarity)\<close>. A \<^verbatim>\<open>nan\<close> similarity compares false with everything, so
  it never replaces the best match.
\<close>

fun best_loop ::
  "embedding \<Rightarrow> employees_cache \<Rightarrow> match option \<times> real \<Rightarrow> error + (match option \<times> real)"
where
  "best_loop new_embedding [] st = Inr st"
| "best_loop new_embedding ((emp_id, d) # rest) (best_match, best_similarity) =
     (case cosine_similarity new_embedding (c_embedding d) of
        Inl e \<Rightarrow> Inl e
      | Inr None \<Rightarrow> best_loop new_embedding rest (best_match, best_similarity)
      | Inr (Some similarity) \<Rightarrow>
          if similarity > best_similarity
          then best_loop new_embedding rest
                 (Some \<lparr>m_employee_id = emp_id, m_name = c_name d, m_similarity = similarity,
                        m_department = c_department d, m_position = c_position d\<rparr>,
                  similarity)
          else best_loop new_embedding rest (best_match, best_similarity))"

text \<open>The outer loop over \<^verbatim>\<open>new_embeddings\<close>, appending to \<^verbatim>\<open>matches\<close>.\<close>

fun compare_loop ::
  "employees_cache \<Rightarrow> real \<Rightarrow> embedding list \<Rightarrow> match list \<Rightarrow> error + match list"
where
  "compare_loop cache threshold [] matches = Inr matches"
| "compare_loop cache threshold (new_embedding # rest) matches =
     (case best_loop new_embedding cache (None, 0) of
        Inl e \<Rightarrow> Inl e
      | Inr (None, _) \<Rightarrow> compare_loop cache threshold rest matches
      | Inr (Some best_match, _) \<Rightarrow>
          if m_similarity best_match > threshold
          then compare_loop cache threshold rest (matches @ [best_match])
          else compare_loop cache threshold rest matches)"

definition compare_faces ::
  "employees_cache \<Rightarrow> embedding list \<Rightarrow> real \<Rightarrow> error + match list" where
  "compare_faces cache new_embeddings threshold = compare_loop cache threshold new_embeddings []"

subsection \<open>Removing duplicates (route mark_attendance)\<close>

text \<open>
  The loop that builds \<^verbatim>\<open>unique_matches\<close> with the set \<^verbatim>\<open>seen_ids\<close>, and the list
  \<^verbatim>\<open>attendance_data\<close> handed to the attendance manager.
\<close>

fun unique_loop :: "match list \<Rightarrow> match list \<Rightarrow> string set \<Rightarrow> match list" where
  "unique_loop [] unique_matches seen_ids = unique_matches"
| "unique_loop (m # rest) unique_matches seen_ids =
     (if m_employee_id m \<notin> seen_ids
      then unique_loop rest (unique_matches @ [m]) (insert (m_employee_id m) seen_ids)
      else unique_loop rest unique_matches seen_ids)"

definition unique_matches :: "match list \<Rightarrow> match list" where
  "unique_matches matches = unique_loop matches [] {}"

record emp_in =
  e_employee_id :: string
  e_name :: string
  e_department :: string
  e_position :: string



subsection \<open>What a returned match is\<close>

text \<open>
  \<open>from_gallery e cache m\<close>: the match \<open>m\<close> carries the identity, the name and the
  similarity of a gallery entry compared with the face \<open>e\<close>. \<open>best_for cache es m\<close>: for
  one of the faces \<open>es\<close>, \<open>m\<close> is such an entry and no entry of the gallery scores higher.
\<close>

definition from_gallery :: "embedding \<Rightarrow> employees_cache \<Rightarrow> match \<Rightarrow> bool" where
  "from_gallery e cache m \<longleftrightarrow>
     (\<exists>d. (m_employee_id m, d) \<in> set cache \<and>
          cosine_similarity e (c_embedding d) = Inr (Some (m_similarity m)) \<and>
          m_name m = c_name d \<and> m_department m = c_department d \<and>
          m_position m = c_position d)"

definition best_for :: "employees_cache \<Rightarrow> embedding list \<Rightarrow> match \<Rightarrow> bool" where
  "best_for cache es m \<longleftrightarrow>
     (\<exists>e \<in> set es. from_gallery e cache m \<and>
        (\<forall>(k, d) \<in> set cache. \<forall>s. cosine_similarity e (c_embedding d) = Inr (Some s) \<longrightarrow> s \<le> m_similarity m))"

section \<open>Attendance ledger (attendance_manager.py)\<close>

subsection \<open>Dates, times and their texts\<close>

text \<open>
  \<^verbatim>\<open>datetime.date\<close> and \<^verbatim>\<open>datetime.time\<close> values, and the texts the code makes of them. The
  padding functions are those of a valid date or time (a year below 10000, an hour below
  24 and so on).
\<close>

record pydate =
  d_year :: nat
  d_month :: nat
  d_day :: nat

record pytime =
  t_hour :: nat
  t_minute :: nat
  t_second :: nat
  t_microsecond :: nat

definition digit :: "nat \<Rightarrow> char" where
  "digit n = ''0123456789'' ! (n mod 10)"

definition pad2 :: "nat \<Rightarrow> string" where
  "pad2 n = [digit (n div 10), digit n]"

definition pad4 :: "nat \<Rightarrow> string" where
  "pad4 n = [digit (n div 1000), digit (n div 100), digit (n div 10), digit n]"

definition pad6 :: "nat \<Rightarrow> string" where
  "pad6 n = [digit (n div 100000), digit (n div 10000), digit (n div 1000),
             digit (n div 100), digit (n div 10), digit n]"

text \<open>\<^verbatim>\<open>today.isoformat()\<close> and \<^verbatim>\<open>today.strftime('%Y-%m-%d')\<close>: the same text.\<close>

definition date_isoformat :: "pydate \<Rightarrow> string" where
  "date_isoformat d = pad4 (d_year d) @ ''-'' @ pad2 (d_month d) @ ''-'' @ pad2 (d_day d)"

text \<open>\<^verbatim>\<open>current_time.strftime('%H:%M:%S')\<close>: whole seconds.\<close>

definition time_strftime :: "pytime \<Rightarrow> string" where
  "time_strftime t = pad2 (t_hour t) @ '':'' @ pad2 (t_minute t) @ '':'' @ pad2 (t_second t)"

text \<open>\<^verbatim>\<open>current_time.isoformat()\<close>: the microseconds follow unless they are zero.\<close>

definition time_isoformat :: "pytime \<Rightarrow> string" where
  "time_isoformat t =
     time_strftime t @ (if t_microsecond t = 0 then '''' else ''.'' @ pad6 (t_microsecond t))"

subsection \<open>The attendance table\<close>

text \<open>
  A row of the table created by \<^verbatim>\<open>init_database\<close>. The columns \<^verbatim>\<open>date\<close>, \<^verbatim>\<open>time_in\<close> and
  \<^verbatim>\<open>time_out\<close> hold the ISO texts the code binds; the model keeps the values those texts
  are made of. \<^verbatim>\<open>created_at\<close> is the engine's \<^verbatim>\<open>CURRENT_TIMESTAMP\<close> at the INSERT, in whole
  seconds. The table is the list of its rows in insertion order; no statement of the
  program deletes a row.
\<close>

record attendance_row =
  r_id :: nat
  r_employee_id :: string
  r_name :: string
  r_date :: pydate
  r_time_in :: pytime
  r_time_out :: "pytime option"
  r_status :: string
  r_created_at :: nat

text \<open>An entry of \<^verbatim>\<open>attendance_records\<close>, the list the call returns.\<close>

record attendance_record =
  a_employee_id :: string
  a_name :: string
  a_date :: string
  a_time_in :: string
  a_time_out :: "string option"
  a_status :: string

text \<open>\<^verbatim>\<open>WHERE employee_id = ? AND date = ?\<close>\<close>

definition todays_rows :: "attendance_row list \<Rightarrow> string \<Rightarrow> pydate \<Rightarrow> attendance_row list" where
  "todays_rows rows eid today = filter (\<lambda>r. r_employee_id r = eid \<and> r_date r = today) rows"

definition latest_created :: "attendance_row list \<Rightarrow> nat" where
  "latest_created rs = fold max (map r_created_at rs) 0"

text \<open>
  The first row with the least \<^verbatim>\<open>time_in\<close> text. The engine finds the rows of an employee and
  a day through the index of \<^verbatim>\<open>UNIQUE(employee_id, date, time_in)\<close>, so it meets them in the
  order of their \<^verbatim>\<open>time_in\<close> text.
\<close>

fun earliest_time_in :: "attendance_row list \<Rightarrow> attendance_row option" where
  "earliest_time_in [] = None"
| "earliest_time_in (r # rs) =
     (case earliest_time_in rs of
        None \<Rightarrow> Some r
      | Some m \<Rightarrow>
          if time_isoformat (r_time_in r) \<le> time_isoformat (r_time_in m) then Some r else Some m)"

text \<open>
  \<^verbatim>\<open>ORDER BY created_at DESC LIMIT 1\<close> followed by \<^verbatim>\<open>fetchone()\<close>: a row whose \<^verbatim>\<open>created_at\<close> is
  the greatest, or nothing when no row qualifies. Among rows with equal \<^verbatim>\<open>created_at\<close> the
  engine keeps the one it met first, the one with the least \<^verbatim>\<open>time_in\<close> text.
\<close>

definition fetch_latest :: "attendance_row list \<Rightarrow> attendance_row option" where
  "fetch_latest cands =
     earliest_time_in (filter (\<lambda>r. r_created_at r = latest_created cands) cands)"

text \<open>\<^verbatim>\<open>INTEGER PRIMARY KEY AUTOINCREMENT\<close>: one more than every id the table has held.\<close>

definition next_id :: "attendance_row list \<Rightarrow> nat" where
  "next_id rows = Suc (fold max (map r_id rows) 0)"

text \<open>\<^verbatim>\<open>UNIQUE(employee_id, date, time_in)\<close>: would the new row repeat a stored triple?\<close>

definition unique_violation :: "attendance_row list \<Rightarrow> string \<Rightarrow> pydate \<Rightarrow> pytime \<Rightarrow> bool" where
  "unique_violation rows eid today now \<longleftrightarrow>
     (\<exists>r \<in> set rows. r_employee_id r = eid \<and> r_date r = today \<and> r_time_in r = now)"

text \<open>
  \<^verbatim>\<open>INSERT INTO attendance (employee_id, name, date, time_in, status)\<close>: \<^verbatim>\<open>time_out\<close> stays
  NULL, and \<open>clock\<close> is the engine's timestamp that becomes \<^verbatim>\<open>created_at\<close>.
\<close>

definition insert_row ::
  "attendance_row list \<Rightarrow> emp_in \<Rightarrow> pydate \<Rightarrow> pytime \<Rightarrow> nat \<Rightarrow> error + attendance_row list" where
  "insert_row rows emp today now clock =
     (if unique_violation rows (e_employee_id emp) today now then Inl IntegrityError
      else Inr (rows @
        [\<lparr>r_id = next_id rows, r_employee_id = e_employee_id emp, r_name = e_name emp,
          r_date = today, r_time_in = now, r_time_out = None, r_status = ''Present'',
          r_created_at = clock\<rparr>]))"

text \<open>\<^verbatim>\<open>UPDATE attendance SET time_out = ? WHERE id = ?\<close>\<close>

definition update_time_out :: "attendance_row list \<Rightarrow> nat \<Rightarrow> pytime \<Rightarrow> attendance_row list" where
  "update_time_out rows aid now =
     map (\<lambda>r. if r_id r = aid then r\<lparr>r_time_out := Some now\<rparr> else r) rows"

subsection \<open>mark_attendance: one employee\<close>

definition punch_in_record :: "emp_in \<Rightarrow> pydate \<Rightarrow> pytime \<Rightarrow> attendance_record" where
  "punch_in_record emp today current_time =
     \<lparr>a_employee_id = e_employee_id emp, a_name = e_name emp, a_date = date_isoformat today,
      a_time_in = time_strftime current_time, a_time_out = None, a_status = ''Present''\<rparr>"

text \<open>
  The body of the loop over \<^verbatim>\<open>employee_data_list\<close>, on the rows the open transaction sees.
  \<open>clock\<close> is what the engine contributes to this iteration: its timestamp.
\<close>

definition mark_one ::
  "pydate \<Rightarrow> pytime \<Rightarrow> attendance_row list \<Rightarrow> emp_in \<Rightarrow> nat
   \<Rightarrow> error + (attendance_row list \<times> attendance_record)" where
  "mark_one today current_time rows emp clock =
     (case fetch_latest (todays_rows rows (e_employee_id emp) today) of
        Some existing \<Rightarrow>
          (case r_time_out existing of
             None \<Rightarrow>
               Inr (update_time_out rows (r_id existing) current_time,
                    \<lparr>a_employee_id = e_employee_id emp, a_name = e_name emp,
                     a_date = date_isoformat today,
                     a_time_in = time_isoformat (r_time_in existing),
                     a_time_out = Some (time_strftime current_time), a_status = ''Present''\<rparr>)
           | Some _ \<Rightarrow>
               (case insert_row rows emp today current_time clock of
                  Inl e \<Rightarrow> Inl e
                | Inr rows' \<Rightarrow> Inr (rows', punch_in_record emp today current_time)))
      | None \<Rightarrow>
          (case insert_row rows emp today current_time clock of
             Inl e \<Rightarrow> Inl e
           | Inr rows' \<Rightarrow> Inr (rows', punch_in_record emp today current_time)))"

text \<open>The loop, with the list \<^verbatim>\<open>attendance_records\<close> it appends to.\<close>

fun mark_loop ::
  "pydate \<Rightarrow> pytime \<Rightarrow> attendance_row list \<Rightarrow> (emp_in \<times> nat) list
   \<Rightarrow> attendance_record list \<Rightarrow> error + (attendance_row list \<times> attendance_record list)"
where
  "mark_loop today current_time rows [] attendance_records = Inr (rows, attendance_records)"
| "mark_loop today current_time rows ((emp, clock) # rest) attendance_records =
     (case mark_one today current_time rows emp clock of
        Inl e \<Rightarrow> Inl e
      | Inr (rows', record) \<Rightarrow>
          mark_loop today current_time rows' rest (attendance_records @ [record]))"

subsection \<open>Ledger states and the most recent session\<close>

text \<open>
  The tables in which an event is processed: the empty table, and every table an
  iteration of the loop leaves behind.
\<close>

inductive reachable :: "attendance_row list \<Rightarrow> bool" where
  empty: "reachable []"
| event: "reachable rows \<Longrightarrow> mark_one today current_time rows emp clock = Inr (rows', record)
          \<Longrightarrow> reachable rows'"

text \<open>
  The most recent session of an employee and a day by creation order: the one inserted
  last (the table is in insertion order, and ids grow with it).
\<close>

definition created_last :: "attendance_row list \<Rightarrow> string \<Rightarrow> pydate \<Rightarrow> attendance_row option" where
  "created_last rows eid today =
     (case todays_rows rows eid today of [] \<Rightarrow> None | r # rs \<Rightarrow> Some (last (r # rs)))"

subsection \<open>Open sessions\<close>

definition open_sessions :: "attendance_row list \<Rightarrow> string \<Rightarrow> pydate \<Rightarrow> attendance_row list" where
  "open_sessions rows eid d =
     filter (\<lambda>r. r_employee_id r = eid \<and> r_date r = d \<and> r_time_out r = None) rows"

definition at_most_one_open :: "attendance_row list \<Rightarrow> bool" where
  "at_most_one_open rows \<longleftrightarrow> (\<forall>eid d. length (open_sessions rows eid d) \<le> 1)"

text \<open>
  What keeps the open session unique: ids are distinct, and an open session was created
  strictly after every other session of its employee and day.
\<close>

definition open_is_latest :: "attendance_row list \<Rightarrow> bool" where
  "open_is_latest rows \<longleftrightarrow>
     distinct (map r_id rows) \<and>
     (\<forall>r \<in> set rows. r_time_out r = None \<longrightarrow>
        (\<forall>x \<in> set rows. r_employee_id x = r_employee_id r \<and> r_date x = r_date r \<and> x \<noteq> r \<longrightarrow>
           r_created_at x < r_created_at r))"

text \<open>
  The engine's clock is ahead: at every iteration of the loop it is past the \<^verbatim>\<open>created_at\<close>
  of every session the employee of that iteration has today.
\<close>

fun clock_ahead ::
  "pydate \<Rightarrow> pytime \<Rightarrow> attendance_row list \<Rightarrow> (emp_in \<times> nat) list \<Rightarrow> bool" where
  "clock_ahead today current_time rows [] = True"
| "clock_ahead today current_time rows ((emp, clock) # rest) =
     ((\<forall>x \<in> set (todays_rows rows (e_employee_id emp) today). r_created_at x < clock) \<and>
      (case mark_one today current_time rows emp clock of
         Inl e \<Rightarrow> True
       | Inr (rows', _) \<Rightarrow> clock_ahead today current_time rows' rest))"

text \<open>
  A closed session that was created last is the one the SELECT returns, and ids are
  distinct: what every table the program builds satisfies.
\<close>

definition closed_last_selected :: "attendance_row list \<Rightarrow> bool" where
  "closed_last_selected rows \<longleftrightarrow>
     distinct (map r_id rows) \<and>
     (\<forall>eid d r. created_last rows eid d = Some r \<and> r_time_out r \<noteq> None \<longrightarrow>
        fetch_latest (todays_rows rows eid d) = Some r)"

section \<open>Report exporter (attendance_manager.py)\<close>

subsection \<open>Texts of numbers and durations\<close>

text \<open>Python's \<^verbatim>\<open>str\<close> of a natural number and of an integer.\<close>

fun str_nat :: "nat \<Rightarrow> string" where
  "str_nat n = (if n < 10 then [digit n] else str_nat (n div 10) @ [digit n])"

declare str_nat.simps [simp del]

definition str_int :: "int \<Rightarrow> string" where
  "str_int i = (if i < 0 then ''-'' @ str_nat (nat (- i)) else str_nat (nat i))"

text \<open>
  What SQLite's \<^verbatim>\<open>time()\<close> returns is a text \<^verbatim>\<open>HH:MM:SS\<close>: hours, minutes, seconds.
  \<^verbatim>\<open>pd.to_datetime(...).dt.strftime('%H:%M:%S')\<close> gives the same text back.
\<close>

type_synonym hms = "nat \<times> nat \<times> nat"

definition hms_str :: "hms \<Rightarrow> string" where
  "hms_str x = (case x of (h, m, s) \<Rightarrow> pad2 h @ '':'' @ pad2 m @ '':'' @ pad2 s)"

text \<open>\<^verbatim>\<open>pd.to_timedelta\<close> of such a text, in seconds.\<close>

definition to_timedelta :: "hms \<Rightarrow> int" where
  "to_timedelta x = (case x of (h, m, s) \<Rightarrow> int (h * 3600 + m * 60 + s))"

text \<open>
  \<^verbatim>\<open>str\<close> of a pandas \<^verbatim>\<open>Timedelta\<close> of whole seconds: the days, the word \<^verbatim>\<open>days\<close>, and the
  rest of the day as \<^verbatim>\<open>HH:MM:SS\<close>, with a \<^verbatim>\<open>+\<close> before it when the days are negative
  (\<^verbatim>\<open>0 days 08:00:00\<close>, \<^verbatim>\<open>-1 days +23:00:00\<close>).
\<close>

definition timedelta_str :: "int \<Rightarrow> string" where
  "timedelta_str d =
     (let days = d div 86400; r = nat (d mod 86400)
      in str_int days @ '' days '' @ (if days < 0 then ''+'' else '''') @
         hms_str (r div 3600, r div 60 mod 60, r mod 60))"

text \<open>\<^verbatim>\<open>str.split()\<close> on blanks, with the word being read as accumulator.\<close>

fun split_acc :: "string \<Rightarrow> string \<Rightarrow> string list" where
  "split_acc [] cur = (if cur = [] then [] else [cur])"
| "split_acc (c # cs) cur =
     (if c = CHR '' '' then (if cur = [] then split_acc cs [] else cur # split_acc cs [])
      else split_acc cs (cur @ [c]))"

definition py_split :: "string \<Rightarrow> string list" where
  "py_split s = split_acc s []"

text \<open>
  The \<^verbatim>\<open>duration\<close> cell: \<^verbatim>\<open>str(x).split()[-1]\<close> of the difference of the two timedeltas when
  \<^verbatim>\<open>time_out\<close> is there, the empty text otherwise. (The split of a Timedelta's text is
  never empty.)
\<close>

definition duration_cell :: "hms \<Rightarrow> hms option \<Rightarrow> string" where
  "duration_cell tin tout =
     (case tout of
        None \<Rightarrow> ''''
      | Some t \<Rightarrow> last (py_split (timedelta_str (to_timedelta t - to_timedelta tin))))"

subsection \<open>save_to_excel\<close>

text \<open>
  The sheet written to the workbook: the column names and the rows of cells, an empty
  cell being the empty text.
\<close>

record sheet =
  columns :: "string list"
  cells :: "string list list"

text \<open>
  \<open>sql_time\<close> is SQLite's \<^verbatim>\<open>time()\<close> on a stored time text. The query orders by
  \<^verbatim>\<open>employee_id\<close> and by the output column \<^verbatim>\<open>time_in\<close>, which is \<^verbatim>\<open>time(time_in)\<close>; rows that
  agree on both come in the order of their stored \<^verbatim>\<open>time_in\<close> text, the order in which the
  engine reads them from the index of \<^verbatim>\<open>UNIQUE(employee_id, date, time_in)\<close>.
\<close>

definition query_today :: "(pytime \<Rightarrow> hms) \<Rightarrow> attendance_row list \<Rightarrow> pydate \<Rightarrow> attendance_row list" where
  "query_today sql_time rows today =
     sort_key (\<lambda>r. (r_employee_id r, sql_time (r_time_in r), time_isoformat (r_time_in r)))
       (filter (\<lambda>r. r_date r = today) rows)"

definition report_row :: "(pytime \<Rightarrow> hms) \<Rightarrow> attendance_row \<Rightarrow> string list" where
  "report_row sql_time r =
     [r_employee_id r, r_name r, date_isoformat (r_date r), hms_str (sql_time (r_time_in r)),
      (case r_time_out r of None \<Rightarrow> '''' | Some t \<Rightarrow> hms_str (sql_time t)),
      r_status r,
      duration_cell (sql_time (r_time_in r)) (map_option sql_time (r_time_out r))]"

text \<open>The data frame: without rows it keeps the six columns of the query.\<close>

definition build_sheet :: "(pytime \<Rightarrow> hms) \<Rightarrow> attendance_row list \<Rightarrow> pydate \<Rightarrow> sheet" where
  "build_sheet sql_time rows today =
     (let df = query_today sql_time rows today
      in if df = []
         then \<lparr>columns = [''employee_id'', ''name'', ''date'', ''time_in'', ''time_out'', ''status''],
               cells = []\<rparr>
         else \<lparr>columns = [''employee_id'', ''name'', ''date'', ''time_in'', ''time_out'', ''status'',
                           ''duration''],
               cells = map (report_row sql_time) df\<rparr>)"

definition excel_path :: "pydate \<Rightarrow> string" where
  "excel_path today = ''attendance_logs/attendance_'' @ date_isoformat today @ ''.xlsx''"

text \<open>
  How the \<^verbatim>\<open>try\<close> block of \<^verbatim>\<open>save_to_excel\<close> ends: it runs through, or the query raises, or
  the writer raises. The \<^verbatim>\<open>except\<close> clause prints the exception and goes on.
\<close>

datatype excel_run = Saved | QueryRaises | WriterRaises

text \<open>
  \<^verbatim>\<open>save_to_excel\<close> on the folder of reports, a map from paths to sheets: a run that goes
  through puts the sheet under the path of the date; a run that raises leaves the folder as
  it is. Either way the path is returned.
\<close>

definition save_to_excel ::
  "(pytime \<Rightarrow> hms) \<Rightarrow> excel_run \<Rightarrow> (string \<rightharpoonup> sheet) \<Rightarrow> attendance_row list \<Rightarrow> pydate
   \<Rightarrow> (string \<rightharpoonup> sheet) \<times> string" where
  "save_to_excel sql_time run folder rows today =
     (case run of
        Saved \<Rightarrow> (folder(excel_path today \<mapsto> build_sheet sql_time rows today), excel_path today)
      | QueryRaises \<Rightarrow> (folder, excel_path today)
      | WriterRaises \<Rightarrow> (folder, excel_path today))"

text \<open>SQLite's \<^verbatim>\<open>time()\<close> on a time whose fraction of a second it drops.\<close>

definition sqlite_time :: "pytime \<Rightarrow> hms" where
  "sqlite_time t = (t_hour t, t_minute t, t_second t)"

subsection \<open>mark_attendance: the whole call\<close>

text \<open>
  The state the manager works on: the table and the folder of reports. The call reads
  \<^verbatim>\<open>date.today()\<close> and the current time once, runs the loop in one transaction, commits,
  and rebuilds the report when a record was produced (\<^verbatim>\<open>save_to_excel\<close> reads
  \<^verbatim>\<open>date.today()\<close> again: \<open>today2\<close>; \<open>run\<close> is how its \<^verbatim>\<open>try\<close> block ends). An exception
  leaves the loop before the commit: the transaction is rolled back and the state is the
  one before the call.
\<close>

record manager =
  db :: "attendance_row list"
  files :: "string \<rightharpoonup> sheet"

definition mark_attendance ::
  "(pytime \<Rightarrow> hms) \<Rightarrow> pydate \<Rightarrow> pytime \<Rightarrow> pydate \<Rightarrow> excel_run \<Rightarrow> manager
   \<Rightarrow> (emp_in \<times> nat) list \<Rightarrow> error + (manager \<times> attendance_record list)" where
  "mark_attendance sql_time today current_time today2 run st employee_data_list =
     (case mark_loop today current_time (db st) employee_data_list [] of
        Inl e \<Rightarrow> Inl e
      | Inr (rows', attendance_records) \<Rightarrow>
          Inr (\<lparr>db = rows',
                files = (if attendance_records \<noteq> []
                         then fst (save_to_excel sql_time run (files st) rows' today2)
                         else files st)\<rparr>,
               attendance_records))"

subsection \<open>Sequences of calls\<close>

text \<open>
  One call of \<^verbatim>\<open>mark_attendance\<close> with what it reads from its environment, and a sequence
  of calls from the empty ledger. A call that raises leaves the state as it was.
\<close>

record batch =
  b_today :: pydate
  b_time :: pytime
  b_today2 :: pydate
  b_excel :: excel_run
  b_events :: "(emp_in \<times> nat) list"

fun run_batches :: "(pytime \<Rightarrow> hms) \<Rightarrow> manager \<Rightarrow> batch list \<Rightarrow> manager" where
  "run_batches sql_time st [] = st"
| "run_batches sql_time st (b # bs) =
     (case mark_attendance sql_time (b_today b) (b_time b) (b_today2 b) (b_excel b) st (b_events b) of
        Inl e \<Rightarrow> run_batches sql_time st bs
      | Inr (st', _) \<Rightarrow> run_batches sql_time st' bs)"

definition initial :: manager where
  "initial = \<lparr>db = [], files = Map.empty\<rparr>"

section \<open>Registration (app.py)\<close>

subsection \<open>The folder of faces\<close>

text \<open>
  The folder \<^verbatim>\<open>faces\<close> holds images and saved embeddings under their paths. It is a finite
  list of named files, which is what makes the search for an unused name end.
\<close>

type_synonym frame = "nat list"

datatype face_file = Jpg frame | Npy embedding

type_synonym folder = "(string \<times> face_file) list"

definition path_exists :: "folder \<Rightarrow> string \<Rightarrow> bool" where
  "path_exists fs p \<longleftrightarrow> p \<in> fst ` set fs"

definition write_file :: "folder \<Rightarrow> string \<Rightarrow> face_file \<Rightarrow> folder" where
  "write_file fs p c =
     (if path_exists fs p then map (\<lambda>(k, v). if k = p then (k, c) else (k, v)) fs
      else fs @ [(p, c)])"

definition remove_file :: "folder \<Rightarrow> string \<Rightarrow> folder" where
  "remove_file fs p = filter (\<lambda>(k, v). k \<noteq> p) fs"

text \<open>The name tried when the counter is \<open>k\<close>: \<^verbatim>\<open>f"{employee_id}_{sanitized_name}_{counter}.jpg"\<close>.\<close>

definition numbered :: "string \<Rightarrow> string \<Rightarrow> nat \<Rightarrow> string" where
  "numbered base ext k = base @ ''_'' @ str_nat k @ ext"

text \<open>Decimal texts of different numbers differ, so the numbered names never repeat.\<close>

lemma digit_eq_iff: "digit a = digit b \<longleftrightarrow> a mod 10 = b mod 10"
proof -
  have "distinct ''0123456789''" by simp
  then show ?thesis
    unfolding digit_def by (subst nth_eq_iff_index_eq) simp_all
qed

lemma str_nat_length: "10 \<le> n \<Longrightarrow> 2 \<le> length (str_nat n)"
proof -
  assume "10 \<le> n"
  then have "str_nat n = str_nat (n div 10) @ [digit n]" by (subst str_nat.simps) simp
  moreover have "str_nat (n div 10) \<noteq> []" by (subst str_nat.simps) simp
  ultimately show ?thesis by (cases "str_nat (n div 10)") simp_all
qed

lemma str_nat_inj: "str_nat n = str_nat m \<Longrightarrow> n = m"
proof (induction n arbitrary: m rule: str_nat.induct)
  case (1 n)
  show ?case
  proof (cases "n < 10")
    case n: True
    then have sn: "str_nat n = [digit n]" by (subst str_nat.simps) simp
    show ?thesis
    proof (cases "m < 10")
      case True
      then have "str_nat m = [digit m]" by (subst str_nat.simps) simp
      with sn "1.prems" have "n mod 10 = m mod 10" by (simp add: digit_eq_iff)
      with n True show ?thesis by simp
    next
      case False
      then have "2 \<le> length (str_nat m)" by (simp add: str_nat_length)
      with sn "1.prems" show ?thesis by simp
    qed
  next
    case n: False
    then have sn: "str_nat n = str_nat (n div 10) @ [digit n]" by (subst str_nat.simps) simp
    show ?thesis
    proof (cases "m < 10")
      case True
      then have "str_nat m = [digit m]" by (subst str_nat.simps) simp
      moreover from n have "2 \<le> length (str_nat n)" by (simp add: str_nat_length)
      ultimately show ?thesis using "1.prems" by simp
    next
      case False
      then have "str_nat m = str_nat (m div 10) @ [digit m]" by (subst str_nat.simps) simp
      with sn "1.prems" have a: "str_nat (n div 10) = str_nat (m div 10)" and b: "digit n = digit m"
        by simp_all
      from "1.IH"[OF n a] have "n div 10 = m div 10" .
      moreover from b have "n mod 10 = m mod 10" by (simp add: digit_eq_iff)
      ultimately show ?thesis by (metis div_mult_mod_eq)
    qed
  qed
qed

lemma numbered_inj: "inj (numbered base ext)"
  by (rule injI) (simp add: numbered_def str_nat_inj)

lemma finite_numbered: "finite {k. c \<le> k \<and> path_exists fs (numbered base ext k)}"
proof -
  have "finite (numbered base ext -` (fst ` set fs))"
    by (rule finite_vimageI[OF _ numbered_inj]) simp
  moreover have "{k. c \<le> k \<and> path_exists fs (numbered base ext k)} \<subseteq> numbered base ext -` (fst ` set fs)"
    by (auto simp: path_exists_def)
  ultimately show ?thesis by (rule rev_finite_subset)
qed

text \<open>
  The search for an unused path:
  \<^verbatim>\<open>while os.path.exists(path): path = numbered(counter); counter += 1\<close>.
  It ends because the numbered names are pairwise different and the folder is finite.
\<close>

function free_path :: "folder \<Rightarrow> string \<Rightarrow> string \<Rightarrow> string \<Rightarrow> nat \<Rightarrow> string" where
  "free_path fs base ext path counter =
     (if path_exists fs path then free_path fs base ext (numbered base ext counter) (Suc counter)
      else path)"
  by pat_completeness auto
termination
proof (relation "measure (\<lambda>(fs, base, ext, path, counter).
          card {k. counter \<le> k \<and> path_exists fs (numbered base ext k)} +
          (if path_exists fs path then 1 else 0))")
  show "wf (measure (\<lambda>(fs, base, ext, path, counter).
          card {k. counter \<le> k \<and> path_exists fs (numbered base ext k)} +
          (if path_exists fs path then 1 else 0)))"
    by simp
next
  fix fs :: folder and base ext path :: string and counter :: nat
  assume ex: "path_exists fs path"
  let ?A = "\<lambda>c. {k. c \<le> k \<and> path_exists fs (numbered base ext k)}"
  have "card (?A (Suc counter)) + (if path_exists fs (numbered base ext counter) then 1 else 0)
        = card (?A counter)"
  proof (cases "path_exists fs (numbered base ext counter)")
    case True
    then have "?A counter = insert counter (?A (Suc counter))" by (auto simp: Suc_le_eq le_less)
    moreover have "counter \<notin> ?A (Suc counter)" by simp
    ultimately show ?thesis using finite_numbered[of "Suc counter" fs base ext] True by simp
  next
    case False
    then have "?A counter = ?A (Suc counter)"
      by (auto simp: Suc_le_eq le_less)
    with False show ?thesis by simp
  qed
  with ex show "((fs, base, ext, numbered base ext counter, Suc counter), (fs, base, ext, path, counter))
        \<in> measure (\<lambda>(fs, base, ext, path, counter).
          card {k. counter \<le> k \<and> path_exists fs (numbered base ext k)} +
          (if path_exists fs path then 1 else 0))"
    by simp
qed

declare free_path.simps [simp del]

subsection \<open>register_employee\<close>

text \<open>
  The row of the table \<^verbatim>\<open>employees\<close> (database.py), the JSON body of the request, and the
  JSON answer.
\<close>

record employee =
  emp_employee_id :: string
  emp_name :: string
  emp_department :: string
  emp_position :: string
  emp_face_image_path :: string
  emp_face_encoding_path :: string
  emp_registered_at :: nat

record request =
  q_employee_id :: string
  q_name :: string
  q_department :: string
  q_position :: string
  q_image :: string

record response =
  success :: bool
  message :: string

text \<open>
  What the route calls and the model does not look into: \<^verbatim>\<open>str.strip\<close>, \<^verbatim>\<open>decode_image\<close>
  (base64 and OpenCV; \<open>None\<close> when the image cannot be decoded), \<^verbatim>\<open>sanitize_filename\<close>
  (two regular expressions and \<^verbatim>\<open>lower\<close>), and \<^verbatim>\<open>extract_face_embedding\<close> on the image just
  written (DeepFace with \<^verbatim>\<open>enforce_detection=True\<close>; its wrapper turns every exception, so
  also "no face", into \<open>None\<close>).
\<close>

record externals =
  x_strip :: "string \<Rightarrow> string"
  x_decode_image :: "string \<Rightarrow> frame option"
  x_sanitize_filename :: "string \<Rightarrow> string"
  x_extract_face_embedding :: "frame \<Rightarrow> embedding option"

text \<open>The state the route works on: the folder, the table and the in-memory cache.\<close>

record registry =
  g_faces :: folder
  g_employees :: "employee list"
  g_cache :: employees_cache

text \<open>\<^verbatim>\<open>employees_cache[employee_id] = ...\<close>: a present key keeps its place in the dict.\<close>

definition cache_put :: "employees_cache \<Rightarrow> string \<Rightarrow> emp_data \<Rightarrow> employees_cache" where
  "cache_put c k d =
     (if k \<in> fst ` set c then map (\<lambda>(k', d'). if k' = k then (k', d) else (k', d')) c
      else c @ [(k, d)])"

definition register_employee ::
  "externals \<Rightarrow> nat \<Rightarrow> registry \<Rightarrow> request \<Rightarrow> registry \<times> response" where
  "register_employee x now st data =
     (let employee_id = x_strip x (q_employee_id data);
          name = x_strip x (q_name data);
          department = x_strip x (q_department data);
          position = x_strip x (q_position data);
          image_data = q_image data
      in if employee_id = [] \<or> name = [] \<or> image_data = []
         then (st, \<lparr>success = False, message = ''Missing required fields''\<rparr>)
         else if \<exists>e \<in> set (g_employees st). emp_employee_id e = employee_id
         then (st, \<lparr>success = False, message = ''Employee ID already exists''\<rparr>)
         else
           (case x_decode_image x image_data of
              None \<Rightarrow> (st, \<lparr>success = False, message = ''Invalid image''\<rparr>)
            | Some frame \<Rightarrow>
                (let sanitized_name = x_sanitize_filename x name;
                     base = ''faces/'' @ employee_id @ ''_'' @ sanitized_name;
                     face_path = free_path (g_faces st) base ''.jpg'' (base @ ''.jpg'') 1;
                     written = write_file (g_faces st) face_path (Jpg frame)
                 in case x_extract_face_embedding x frame of
                      None \<Rightarrow>
                        (st\<lparr>g_faces := (if path_exists written face_path
                                        then remove_file written face_path else written)\<rparr>,
                         \<lparr>success = False,
                          message = ''No face detected. Please ensure face is clearly visible.''\<rparr>)
                    | Some embedding \<Rightarrow>
                        (let embedding_path = free_path written base ''.npy'' (base @ ''.npy'') 1;
                             saved = write_file written embedding_path (Npy embedding)
                         in (\<lparr>g_faces = saved,
                              g_employees = g_employees st @
                                [\<lparr>emp_employee_id = employee_id, emp_name = name,
                                  emp_department = department, emp_position = position,
                                  emp_face_image_path = face_path,
                                  emp_face_encoding_path = embedding_path,
                                  emp_registered_at = now\<rparr>],
                              g_cache = cache_put (g_cache st) employee_id
                                \<lparr>c_employee_id = employee_id, c_name = name,
                                 c_department = department, c_position = position,
                                 c_embedding = embedding\<rparr>\<rparr>,
                             \<lparr>success = True,
                              message = ''Employee '' @ name @ '' registered successfully!''\<rparr>)))))"

text \<open>The path the route chooses for the image of a request.\<close>

definition face_path_of :: "externals \<Rightarrow> registry \<Rightarrow> request \<Rightarrow> string" where
  "face_path_of x st data =
     (let base = ''faces/'' @ x_strip x (q_employee_id data) @ ''_'' @
                 x_sanitize_filename x (x_strip x (q_name data))
      in free_path (g_faces st) base ''.jpg'' (base @ ''.jpg'') 1)"

section \<open>Example data\<close>

text \<open>A gallery of two employees with orthogonal reference embeddings.\<close>

definition gallery_ab :: employees_cache where
  "gallery_ab =
     [(''A'', \<lparr>c_employee_id = ''A'', c_name = ''Ann'', c_department = ''Ops'',
               c_position = ''Lead'', c_embedding = [1, 0]\<rparr>),
      (''B'', \<lparr>c_employee_id = ''B'', c_name = ''Bob'', c_department = ''Ops'',
               c_position = ''Clerk'', c_embedding = [0, 1]\<rparr>)]"

definition match_a :: match where
  "match_a = \<lparr>m_employee_id = ''A'', m_name = ''Ann'', m_similarity = 1,
              m_department = ''Ops'', m_position = ''Lead''\<rparr>"


text \<open>One employee, one day, and the times of the day used below.\<close>

definition emp_e1 :: emp_in where
  "emp_e1 = \<lparr>e_employee_id = ''E1'', e_name = ''Eve'', e_department = ''Ops'', e_position = ''Lead''\<rparr>"

definition day1 :: pydate where
  "day1 = \<lparr>d_year = 2024, d_month = 3, d_day = 11\<rparr>"

definition clock_time :: "nat \<Rightarrow> nat \<Rightarrow> nat \<Rightarrow> pytime" where
  "clock_time h m s = \<lparr>t_hour = h, t_minute = m, t_second = s, t_microsecond = 0\<rparr>"

definition session :: "nat \<Rightarrow> pytime \<Rightarrow> pytime option \<Rightarrow> nat \<Rightarrow> attendance_row" where
  "session i tin tout created =
     \<lparr>r_id = i, r_employee_id = ''E1'', r_name = ''Eve'', r_date = day1, r_time_in = tin,
      r_time_out = tout, r_status = ''Present'', r_created_at = created\<rparr>"

definition call_at :: "pytime \<Rightarrow> nat \<Rightarrow> batch" where
  "call_at now clock =
     \<lparr>b_today = day1, b_time = now, b_today2 = day1, b_excel = Saved,
      b_events = [(emp_e1, clock)]\<rparr>"

text \<open>
  A registration whose image decodes but shows no face, into a folder where the first
  name tried is taken.
\<close>

definition no_face_externals :: externals where
  "no_face_externals =
     \<lparr>x_strip = (\<lambda>s. s),
      x_decode_image = (\<lambda>s. if s = ''img'' then Some [1, 2, 3] else None),
      x_sanitize_filename = (\<lambda>s. s),
      x_extract_face_embedding = (\<lambda>f. None)\<rparr>"

definition registry1 :: registry where
  "registry1 = \<lparr>g_faces = [(''faces/E7_eve.jpg'', Jpg [0])], g_employees = [], g_cache = []\<rparr>"

definition request1 :: request where
  "request1 = \<lparr>q_employee_id = ''E7'', q_name = ''eve'', q_department = ''Ops'',
                q_position = ''Lead'', q_image = ''img''\<rparr>"

text \<open>
  The ledger after three calls, the clock set back by an hour after the second, and the
  ledger after the fourth call, with two open sessions.
\<close>

definition one_back :: "attendance_row list" where
  "one_back =
     [session 1 (clock_time 9 0 0) (Some (clock_time 9 5 0)) 32400,
      session 2 (clock_time 8 10 0) None 29400]"

definition two_open :: "attendance_row list" where
  "two_open =
     [session 1 (clock_time 9 0 0) (Some (clock_time 9 5 0)) 32400,
      session 2 (clock_time 8 10 0) None 29400,
      session 3 (clock_time 8 20 0) None 30000]"

text \<open>
  The same with all calls within one second of the engine's clock, tenths of a second
  apart; and three such calls where the local clock went back by half a second before the
  third.
\<close>

definition tenths :: "nat \<Rightarrow> pytime" where
  "tenths n = \<lparr>t_hour = 9, t_minute = 0, t_second = 0, t_microsecond = n * 100000\<rparr>"

definition tied_first :: "attendance_row list" where
  "tied_first =
     [session 1 (tenths 1) (Some (tenths 3)) 32400,
      session 2 (tenths 5) None 32400]"

definition two_open_tied :: "attendance_row list" where
  "two_open_tied =
     [session 1 (tenths 1) (Some (tenths 3)) 32400,
      session 2 (tenths 5) None 32400,
      session 3 (tenths 7) None 32400]"

definition tied_swapped :: "attendance_row list" where
  "tied_swapped =
     [session 1 (tenths 7) (Some (tenths 8)) 32400,
      session 2 (tenths 2) None 32400]"



section \<open>The matcher: proofs\<close>

subsection \<open>The loops of compare_faces\<close>

text \<open>One iteration of the inner loop: the state either stays, or takes the entry just compared.\<close>

lemma best_loop_Cons:
  assumes "best_loop e ((k, d) # cache) (bm, bs) = Inr r"
  shows "\<exists>bm1 bs1. best_loop e cache (bm1, bs1) = Inr r \<and>
           ((bm1 = bm \<and> bs1 = bs \<and>
             (\<forall>s. cosine_similarity e (c_embedding d) = Inr (Some s) \<longrightarrow> s \<le> bs)) \<or>
            (cosine_similarity e (c_embedding d) = Inr (Some bs1) \<and> bs < bs1 \<and>
             bm1 = Some \<lparr>m_employee_id = k, m_name = c_name d, m_similarity = bs1,
                          m_department = c_department d, m_position = c_position d\<rparr>))"
  using assms by (auto split: sum.splits option.splits if_splits)

lemma best_loop_inv:
  "best_loop e cache (bm, bs) = Inr (bm', bs') \<Longrightarrow> 0 \<le> bs \<Longrightarrow>
   (\<forall>m. bm = Some m \<longrightarrow> m_similarity m = bs \<and> 0 < bs) \<Longrightarrow>
   0 \<le> bs' \<and> (\<forall>m. bm' = Some m \<longrightarrow> m_similarity m = bs' \<and> 0 < bs')"
proof (induction cache arbitrary: bm bs)
  case Nil
  then show ?case by simp
next
  case (Cons a cache)
  obtain k d where a: "a = (k, d)" by (cases a)
  from Cons.prems(1) obtain bm1 bs1 where
    run: "best_loop e cache (bm1, bs1) = Inr (bm', bs')" and
    step: "(bm1 = bm \<and> bs1 = bs) \<or>
           (bs < bs1 \<and> bm1 = Some \<lparr>m_employee_id = k, m_name = c_name d, m_similarity = bs1,
                          m_department = c_department d, m_position = c_position d\<rparr>)"
    unfolding a by (blast dest: best_loop_Cons)
  from step Cons.prems(2,3) have "0 \<le> bs1" and "\<forall>m. bm1 = Some m \<longrightarrow> m_similarity m = bs1 \<and> 0 < bs1"
    by auto
  with run show ?case by (rule Cons.IH)
qed

lemma best_loop_member:
  "best_loop e cache (bm, bs) = Inr (bm', bs') \<Longrightarrow> set cache \<subseteq> set cache0 \<Longrightarrow>
   (\<forall>m. bm = Some m \<longrightarrow> from_gallery e cache0 m) \<Longrightarrow>
   (\<forall>m. bm' = Some m \<longrightarrow> from_gallery e cache0 m)"
proof (induction cache arbitrary: bm bs)
  case Nil
  then show ?case by simp
next
  case (Cons a cache)
  obtain k d where a: "a = (k, d)" by (cases a)
  from Cons.prems(1) obtain bm1 bs1 where
    run: "best_loop e cache (bm1, bs1) = Inr (bm', bs')" and
    step: "(bm1 = bm \<and> bs1 = bs) \<or>
           (cosine_similarity e (c_embedding d) = Inr (Some bs1) \<and>
            bm1 = Some \<lparr>m_employee_id = k, m_name = c_name d, m_similarity = bs1,
                          m_department = c_department d, m_position = c_position d\<rparr>)"
    unfolding a by (blast dest: best_loop_Cons)
  from Cons.prems(2) have sub: "set cache \<subseteq> set cache0" and mem: "(k, d) \<in> set cache0"
    by (auto simp: a)
  from step Cons.prems(3) mem have "\<forall>m. bm1 = Some m \<longrightarrow> from_gallery e cache0 m"
    by (auto simp: from_gallery_def)
  with run sub show ?case by (rule Cons.IH)
qed

lemma best_loop_upper:
  "best_loop e cache (bm, bs) = Inr (bm', bs') \<Longrightarrow>
   bs \<le> bs' \<and> (\<forall>(k, d) \<in> set cache. \<forall>s. cosine_similarity e (c_embedding d) = Inr (Some s) \<longrightarrow> s \<le> bs')"
proof (induction cache arbitrary: bm bs)
  case Nil
  then show ?case by simp
next
  case (Cons a cache)
  obtain k d where a: "a = (k, d)" by (cases a)
  from Cons.prems(1) obtain bm1 bs1 where
    run: "best_loop e cache (bm1, bs1) = Inr (bm', bs')" and
    step: "(bs1 = bs \<and>
             (\<forall>s. cosine_similarity e (c_embedding d) = Inr (Some s) \<longrightarrow> s \<le> bs)) \<or>
            (cosine_similarity e (c_embedding d) = Inr (Some bs1) \<and> bs < bs1)"
    unfolding a by (blast dest: best_loop_Cons)
  from Cons.IH[OF run] have le: "bs1 \<le> bs'" and
    rest: "\<forall>(k, d) \<in> set cache. \<forall>s. cosine_similarity e (c_embedding d) = Inr (Some s) \<longrightarrow> s \<le> bs'"
    by auto
  from step le have hd: "bs \<le> bs'" "\<forall>s. cosine_similarity e (c_embedding d) = Inr (Some s) \<longrightarrow> s \<le> bs'"
    by auto
  with rest show ?case by (simp add: a)
qed

lemma best_loop_total:
  "\<forall>(k, d) \<in> set cache. length (c_embedding d) = length e \<Longrightarrow> \<exists>r. best_loop e cache st = Inr r"
proof (induction cache arbitrary: st)
  case Nil
  then show ?case by simp
next
  case (Cons a cache)
  obtain k d where a: "a = (k, d)" by (cases a)
  obtain bm bs where st: "st = (bm, bs)" by (cases st)
  from Cons.prems have len: "length e = length (c_embedding d)" by (simp add: a)
  from Cons.prems have rest: "\<forall>(k, d) \<in> set cache. length (c_embedding d) = length e" by simp
  show ?case
    unfolding a st using len Cons.IH[OF rest]
    by (auto simp: cosine_similarity_def np_dot_def Let_def split: option.splits)
qed

text \<open>What one face contributes, started from \<open>(None, 0)\<close> as the source does.\<close>

lemma best_loop_start:
  assumes "best_loop e cache (None, 0) = Inr (Some m, bs')"
  shows "0 < m_similarity m \<and> from_gallery e cache m \<and>
         (\<forall>(k, d) \<in> set cache. \<forall>s. cosine_similarity e (c_embedding d) = Inr (Some s) \<longrightarrow> s \<le> m_similarity m)"
proof -
  from best_loop_inv[OF assms] have 1: "m_similarity m = bs'" "0 < bs'" by auto
  from best_loop_member[OF assms subset_refl] have 2: "from_gallery e cache m" by simp
  from best_loop_upper[OF assms] 1 2 show ?thesis by simp
qed

lemma compare_loop_acc:
  "compare_loop cache t es acc = Inr ms \<Longrightarrow>
   \<exists>new. ms = acc @ new \<and> (\<forall>m \<in> set new. t < m_similarity m \<and> 0 < m_similarity m \<and> best_for cache es m)"
proof (induction es arbitrary: acc)
  case Nil
  then show ?case by simp
next
  case (Cons e es)
  from Cons.prems obtain bm bs where b: "best_loop e cache (None, 0) = Inr (bm, bs)"
    by (auto split: sum.splits)
  have mono: "\<And>m. best_for cache es m \<Longrightarrow> best_for cache (e # es) m"
    by (auto simp: best_for_def)
  show ?case
  proof (cases "\<exists>m. bm = Some m \<and> t < m_similarity m")
    case True
    then obtain m where m: "bm = Some m" "t < m_similarity m" by blast
    with Cons.prems b have "compare_loop cache t es (acc @ [m]) = Inr ms" by simp
    from Cons.IH[OF this] obtain new where
      new: "ms = (acc @ [m]) @ new" "\<forall>x \<in> set new. t < m_similarity x \<and> 0 < m_similarity x \<and> best_for cache es x"
      by blast
    from best_loop_start[OF b[unfolded m(1)]] have "0 < m_similarity m" "best_for cache (e # es) m"
      by (auto simp: best_for_def)
    with new m(2) mono have "ms = acc @ (m # new) \<and>
       (\<forall>x \<in> set (m # new). t < m_similarity x \<and> 0 < m_similarity x \<and> best_for cache (e # es) x)"
      by auto
    then show ?thesis by blast
  next
    case False
    with Cons.prems b have "compare_loop cache t es acc = Inr ms"
      by (auto split: option.splits if_splits)
    from Cons.IH[OF this] mono show ?thesis by blast
  qed
qed

lemma compare_loop_append:
  "compare_loop cache t (es1 @ es2) acc =
     (case compare_loop cache t es1 acc of Inl err \<Rightarrow> Inl err | Inr ms \<Rightarrow> compare_loop cache t es2 ms)"
  by (induction es1 arbitrary: acc) (auto split: sum.splits option.splits)

lemma face_dropped:
  assumes len: "\<forall>(k, d) \<in> set cache. length (c_embedding d) = length e"
    and le: "\<forall>(k, d) \<in> set cache. \<forall>s. cosine_similarity e (c_embedding d) = Inr (Some s) \<longrightarrow> s \<le> t"
  shows "compare_loop cache t (e # es) acc = compare_loop cache t es acc"
proof -
  from best_loop_total[OF len] obtain bm bs where b: "best_loop e cache (None, 0) = Inr (bm, bs)"
    by (metis surj_pair)
  show ?thesis
  proof (cases bm)
    case None
    with b show ?thesis by simp
  next
    case (Some m)
    from best_loop_start[OF b[unfolded Some]] have "from_gallery e cache m" by simp
    with le have "m_similarity m \<le> t" by (auto simp: from_gallery_def)
    with b Some show ?thesis by simp
  qed
qed

text \<open>The similarities of the example gallery.\<close>

lemma cos_simps:
  "cosine_similarity [1, 0] [1, 0] = Inr (Some 1)"
  "cosine_similarity [1, 0] [0, 1] = Inr (Some 0)"
  "cosine_similarity [0, 1] [1, 0] = Inr (Some 0)"
  "cosine_similarity [0, 1] [0, 1] = Inr (Some 1)"
  "cosine_similarity [-1, 0] [1, 0] = Inr (Some (-1))"
  "cosine_similarity [-1, 0] [0, 1] = Inr (Some 0)"
  "cosine_similarity [0, 0] [1, 0] = Inr None"
  "cosine_similarity [0, 0] [0, 1] = Inr None"
  by (simp_all add: cosine_similarity_def np_dot_def np_norm_def)

text \<open>
  Claim C1. Every match \<^verbatim>\<open>compare_faces\<close> returns has a similarity strictly above the
  threshold, and it is the best entry of the gallery for one of the faces. A face whose
  similarities to the gallery are all at most the threshold (so also a face whose best
  similarity equals the threshold) adds nothing to the result and raises nothing: alone it
  yields the empty list, and within a frame the result is the one of the frame without it.
\<close>

theorem compare_faces_strict_threshold:
  "(compare_faces cache es t = Inr ms \<longrightarrow>
      (\<forall>m \<in> set ms. t < m_similarity m \<and> best_for cache es m)) \<and>
   ((\<forall>(k, d) \<in> set cache. length (c_embedding d) = length e \<and>
        (\<forall>s. cosine_similarity e (c_embedding d) = Inr (Some s) \<longrightarrow> s \<le> t)) \<longrightarrow>
      compare_faces cache [e] t = Inr [] \<and>
      compare_faces cache (es1 @ e # es2) t = compare_faces cache (es1 @ es2) t)"
proof (intro conjI impI)
  assume "compare_faces cache es t = Inr ms"
  from compare_loop_acc[OF this[unfolded compare_faces_def]]
  show "\<forall>m \<in> set ms. t < m_similarity m \<and> best_for cache es m" by auto
next
  assume h: "\<forall>(k, d) \<in> set cache. length (c_embedding d) = length e \<and>
        (\<forall>s. cosine_similarity e (c_embedding d) = Inr (Some s) \<longrightarrow> s \<le> t)"
  then have len: "\<forall>(k, d) \<in> set cache. length (c_embedding d) = length e"
    and le: "\<forall>(k, d) \<in> set cache. \<forall>s. cosine_similarity e (c_embedding d) = Inr (Some s) \<longrightarrow> s \<le> t"
    by auto
  show "compare_faces cache [e] t = Inr []"
    unfolding compare_faces_def using face_dropped[OF len le, of "[]" "[]"] by simp
  show "compare_faces cache (es1 @ e # es2) t = compare_faces cache (es1 @ es2) t"
    unfolding compare_faces_def compare_loop_append
    using face_dropped[OF len le] by (simp split: sum.splits)
qed

theorem compare_faces_strict_threshold_witness:
  "compare_faces gallery_ab [[1, 0]] (65 / 100) = Inr [match_a] \<and>
   65 / 100 < m_similarity match_a \<and>
   best_for gallery_ab [[1, 0]] match_a \<and>
   compare_faces gallery_ab [[1, 0]] 1 = Inr [] \<and>
   compare_faces gallery_ab ([[-1, 0]] @ [1, 0] # [[0, 1]]) 1 = compare_faces gallery_ab ([[-1, 0]] @ [[0, 1]]) 1"
proof -
  have run: "compare_faces gallery_ab [[1, 0]] (65 / 100) = Inr [match_a]"
    by (simp add: compare_faces_def gallery_ab_def match_a_def cos_simps)
  have hyp: "\<forall>(k, d) \<in> set gallery_ab. length (c_embedding d) = length [1, 0 :: real] \<and>
        (\<forall>s. cosine_similarity [1, 0] (c_embedding d) = Inr (Some s) \<longrightarrow> s \<le> 1)"
    by (simp add: gallery_ab_def cos_simps)
  from compare_faces_strict_threshold[of gallery_ab "[[1, 0]]" "65 / 100" "[match_a]" "[1, 0]"]
    compare_faces_strict_threshold[of gallery_ab "[[1, 0]]" 1 "[]" "[1, 0]" "[[-1, 0]]" "[[0, 1]]"]
    run hyp
  show ?thesis by simp
qed

text \<open>
  Claim C10. Whatever the threshold, also zero or negative, every match returned has a
  similarity strictly above zero, and that similarity is the one of a gallery entry with
  one of the faces: an entry whose similarity is not positive is never returned.
\<close>

theorem compare_faces_positive:
  "compare_faces cache es t = Inr ms \<Longrightarrow>
   \<forall>m \<in> set ms. 0 < m_similarity m \<and> (\<exists>e \<in> set es. from_gallery e cache m)"
  using compare_loop_acc[of cache t es "[]" ms]
  by (auto simp: compare_faces_def best_for_def)

theorem compare_faces_positive_witness:
  "compare_faces gallery_ab [[-1, 0], [0, 0], [1, 0]] (-2) = Inr [match_a] \<and>
   0 < m_similarity match_a \<and> from_gallery [1, 0] gallery_ab match_a"
proof -
  have run: "compare_faces gallery_ab [[-1, 0], [0, 0], [1, 0]] (-2) = Inr [match_a]"
    by (simp add: compare_faces_def gallery_ab_def match_a_def cos_simps)
  have fg: "from_gallery [1, 0] gallery_ab match_a"
    by (simp add: from_gallery_def gallery_ab_def match_a_def cos_simps)
  from compare_faces_positive[OF run] run fg show ?thesis by simp
qed

subsection \<open>Removing duplicates\<close>










section \<open>The ledger: proofs\<close>

subsection \<open>The row the SELECT returns\<close>

text \<open>
  The greatest \<^verbatim>\<open>created_at\<close> bounds every row and is attained; among the rows that attain it
  the one returned has the least \<^verbatim>\<open>time_in\<close> text; a fresh id is unused.
\<close>

lemma fold_max_ge: "a \<le> fold max xs (a::nat)"
  by (induction xs arbitrary: a) (auto intro: order_trans[OF max.cobounded2])

lemma fold_max_upper: "x \<in> set xs \<Longrightarrow> x \<le> fold max xs (a::nat)"
proof (induction xs arbitrary: a)
  case Nil
  then show ?case by simp
next
  case (Cons y ys)
  show ?case
  proof (cases "x = y")
    case True
    have "x \<le> max x a" by simp
    also have "\<dots> \<le> fold max ys (max x a)" by (rule fold_max_ge)
    finally show ?thesis using True by simp
  next
    case False
    with Cons.prems have "x \<in> set ys" by simp
    from Cons.IH[OF this] show ?thesis by simp
  qed
qed

lemma fold_max_mem: "fold max xs (a::nat) = a \<or> fold max xs a \<in> set xs"
proof (induction xs arbitrary: a)
  case Nil
  then show ?case by simp
next
  case (Cons y ys)
  from Cons.IH[of "max y a"] show ?case by (auto simp: max_def split: if_splits)
qed

lemma latest_created_upper: "x \<in> set rs \<Longrightarrow> r_created_at x \<le> latest_created rs"
  unfolding latest_created_def by (rule fold_max_upper) simp

lemma latest_created_attained:
  assumes "rs \<noteq> []"
  shows "\<exists>x \<in> set rs. r_created_at x = latest_created rs"
proof -
  from assms obtain y where y: "y \<in> set rs" by (cases rs) auto
  from fold_max_mem[of "map r_created_at rs" 0]
  show ?thesis
  proof
    assume z: "fold max (map r_created_at rs) 0 = 0"
    from latest_created_upper[OF y] z have "r_created_at y = latest_created rs"
      by (simp add: latest_created_def)
    with y show ?thesis by blast
  next
    assume "fold max (map r_created_at rs) 0 \<in> set (map r_created_at rs)"
    then show ?thesis by (auto simp: latest_created_def)
  qed
qed

lemma earliest_time_in_None: "earliest_time_in rs = None \<longleftrightarrow> rs = []"
  by (induction rs) (auto split: option.splits)

lemma earliest_time_in_mem: "earliest_time_in rs = Some m \<Longrightarrow> m \<in> set rs"
  by (induction rs arbitrary: m) (auto split: option.splits if_splits)

lemma earliest_time_in_least:
  "earliest_time_in rs = Some m \<Longrightarrow> x \<in> set rs \<Longrightarrow>
   time_isoformat (r_time_in m) \<le> time_isoformat (r_time_in x)"
proof (induction rs arbitrary: m x)
  case Nil
  then show ?case by simp
next
  case (Cons r rs)
  show ?case
  proof (cases "earliest_time_in rs")
    case None
    then have "rs = []" by (simp add: earliest_time_in_None)
    with Cons.prems None show ?thesis by simp
  next
    case (Some m')
    have rest: "y \<in> set rs \<Longrightarrow> time_isoformat (r_time_in m') \<le> time_isoformat (r_time_in y)" for y
      using Cons.IH[OF Some] .
    from Cons.prems(2) have xin: "x = r \<or> x \<in> set rs" by simp
    show ?thesis
    proof (cases "time_isoformat (r_time_in r) \<le> time_isoformat (r_time_in m')")
      case True
      with Cons.prems(1) Some have m: "m = r" by simp
      from xin show ?thesis
      proof
        assume "x = r"
        with m show ?thesis by simp
      next
        assume "x \<in> set rs"
        from rest[OF this] True m show ?thesis by simp
      qed
    next
      case False
      with Cons.prems(1) Some have m: "m = m'" by simp
      from xin show ?thesis
      proof
        assume "x = r"
        with m False show ?thesis by simp
      next
        assume "x \<in> set rs"
        from rest[OF this] m show ?thesis by simp
      qed
    qed
  qed
qed

lemma fetch_latest_None: "fetch_latest cands = None \<longleftrightarrow> cands = []"
proof
  assume n: "fetch_latest cands = None"
  show "cands = []"
  proof (rule ccontr)
    assume "cands \<noteq> []"
    from latest_created_attained[OF this]
    have "filter (\<lambda>r. r_created_at r = latest_created cands) cands \<noteq> []"
      by (auto simp: filter_empty_conv)
    with n show False by (simp add: fetch_latest_def earliest_time_in_None)
  qed
next
  assume "cands = []"
  then show "fetch_latest cands = None" by (simp add: fetch_latest_def)
qed

lemma fetch_latest_Some:
  assumes "fetch_latest cands = Some r"
  shows "r \<in> set cands \<and> r_created_at r = latest_created cands"
  using earliest_time_in_mem[OF assms[unfolded fetch_latest_def]] by simp

lemma fetch_latest_max:
  assumes "fetch_latest cands = Some r" and "x \<in> set cands"
  shows "r_created_at x \<le> r_created_at r"
  using fetch_latest_Some[OF assms(1)] latest_created_upper[OF assms(2)] by simp

lemma fetch_latest_least_time_in:
  assumes "fetch_latest cands = Some r" and "x \<in> set cands" and "r_created_at x = r_created_at r"
  shows "time_isoformat (r_time_in r) \<le> time_isoformat (r_time_in x)"
proof -
  from fetch_latest_Some[OF assms(1)] assms(2,3)
  have "x \<in> set (filter (\<lambda>r. r_created_at r = latest_created cands) cands)" by simp
  from earliest_time_in_least[OF assms(1)[unfolded fetch_latest_def] this] show ?thesis .
qed

lemma fetch_latest_strictly_latest:
  assumes "r \<in> set cands" and "\<forall>x \<in> set cands. x \<noteq> r \<longrightarrow> r_created_at x < r_created_at r"
  shows "fetch_latest cands = Some r"
proof -
  from assms(1) have "cands \<noteq> []" by auto
  then obtain r' where f: "fetch_latest cands = Some r'"
    using fetch_latest_None[of cands] by auto
  have "r' = r"
  proof (rule ccontr)
    assume "r' \<noteq> r"
    with assms(2) fetch_latest_Some[OF f] have "r_created_at r' < r_created_at r" by blast
    with fetch_latest_max[OF f assms(1)] show False by simp
  qed
  with f show ?thesis by simp
qed

lemma next_id_fresh: "next_id rows \<notin> r_id ` set rows"
proof
  assume "next_id rows \<in> r_id ` set rows"
  then have "next_id rows \<in> set (map r_id rows)" by simp
  from fold_max_upper[OF this, of 0] show False by (simp add: next_id_def)
qed

text \<open>The definitions that evaluate a call on the example data, and three example ledgers.\<close>

lemmas ledger_eval =
  mark_one_def fetch_latest_def todays_rows_def latest_created_def insert_row_def
  unique_violation_def next_id_def update_time_out_def punch_in_record_def Let_def
  created_last_def emp_e1_def day1_def clock_time_def tenths_def session_def
  time_strftime_def time_isoformat_def date_isoformat_def pad2_def pad4_def pad6_def digit_def

lemmas call_eval = mark_attendance_def save_to_excel_def initial_def call_at_def

lemma db_closed_once:
  "db (run_batches sqlite_time initial
        [call_at (clock_time 9 0 0) 100, call_at (clock_time 17 0 0) 200]) =
     [session 1 (clock_time 9 0 0) (Some (clock_time 17 0 0)) 100]"
  by (simp add: ledger_eval call_eval)

lemma db_one_back:
  "db (run_batches sqlite_time initial
        [call_at (clock_time 9 0 0) 32400, call_at (clock_time 9 5 0) 32700,
         call_at (clock_time 8 10 0) 29400]) = one_back"
  by (simp add: ledger_eval call_eval one_back_def)

lemma db_tied_first:
  "db (run_batches sqlite_time initial
        [call_at (tenths 1) 32400, call_at (tenths 3) 32400, call_at (tenths 5) 32400]) = tied_first"
  by (simp add: ledger_eval call_eval tied_first_def)

lemma db_tied_swapped:
  "db (run_batches sqlite_time initial
        [call_at (tenths 7) 32400, call_at (tenths 8) 32400, call_at (tenths 2) 32400]) = tied_swapped"
  by (simp add: ledger_eval call_eval tied_swapped_def)

text \<open>
  What the SELECT does return: a session of the employee and the day with the greatest
  \<^verbatim>\<open>created_at\<close>, and among those with that \<^verbatim>\<open>created_at\<close> one with the least \<^verbatim>\<open>time_in\<close> text.
\<close>

lemma fetch_latest_greatest_created_at:
  "(todays_rows rows eid today \<noteq> [] \<longrightarrow> (\<exists>r. fetch_latest (todays_rows rows eid today) = Some r)) \<and>
   (\<forall>r. fetch_latest (todays_rows rows eid today) = Some r \<longrightarrow>
      r \<in> set rows \<and> r_employee_id r = eid \<and> r_date r = today \<and>
      (\<forall>x \<in> set rows. r_employee_id x = eid \<and> r_date x = today \<longrightarrow>
         r_created_at x \<le> r_created_at r \<and>
         (r_created_at x = r_created_at r \<longrightarrow>
            time_isoformat (r_time_in r) \<le> time_isoformat (r_time_in x))))"
proof (intro conjI impI allI ballI)
  assume "todays_rows rows eid today \<noteq> []"
  then show "\<exists>r. fetch_latest (todays_rows rows eid today) = Some r"
    using fetch_latest_None[of "todays_rows rows eid today"] by auto
next
  fix r assume f: "fetch_latest (todays_rows rows eid today) = Some r"
  from fetch_latest_Some[OF f] show "r \<in> set rows" "r_employee_id r = eid" "r_date r = today"
    by (simp_all add: todays_rows_def)
  fix x assume "x \<in> set rows" "r_employee_id x = eid \<and> r_date x = today"
  then have x: "x \<in> set (todays_rows rows eid today)" by (simp add: todays_rows_def)
  from fetch_latest_max[OF f x] show "r_created_at x \<le> r_created_at r" .
  assume "r_created_at x = r_created_at r"
  from fetch_latest_least_time_in[OF f x this]
  show "time_isoformat (r_time_in r) \<le> time_isoformat (r_time_in x)" .
qed

text \<open>
  Claim C4 does not hold of the code. After the clock was set back (ledger \<open>one_back\<close>),
  the session the loop looks at is session 1, created first, not session 2, created last.
  When sessions share a \<^verbatim>\<open>created_at\<close> second, \<^verbatim>\<open>time_in\<close> decides: in \<open>tied_first\<close> and in
  \<open>tied_swapped\<close> the sessions were created in the same order with the same \<^verbatim>\<open>created_at\<close>,
  and the one selected is the one with the smaller \<^verbatim>\<open>time_in\<close>, session 1 in the first ledger
  and session 2 in the second.
\<close>

theorem selected_session_not_created_last:
  "db (run_batches sqlite_time initial
        [call_at (clock_time 9 0 0) 32400, call_at (clock_time 9 5 0) 32700,
         call_at (clock_time 8 10 0) 29400]) = one_back \<and>
   created_last one_back ''E1'' day1 = Some (session 2 (clock_time 8 10 0) None 29400) \<and>
   fetch_latest (todays_rows one_back ''E1'' day1) =
     Some (session 1 (clock_time 9 0 0) (Some (clock_time 9 5 0)) 32400) \<and>
   db (run_batches sqlite_time initial
        [call_at (tenths 1) 32400, call_at (tenths 3) 32400, call_at (tenths 5) 32400]) = tied_first \<and>
   created_last tied_first ''E1'' day1 = Some (session 2 (tenths 5) None 32400) \<and>
   fetch_latest (todays_rows tied_first ''E1'' day1) = Some (session 1 (tenths 1) (Some (tenths 3)) 32400) \<and>
   db (run_batches sqlite_time initial
        [call_at (tenths 7) 32400, call_at (tenths 8) 32400, call_at (tenths 2) 32400]) = tied_swapped \<and>
   created_last tied_swapped ''E1'' day1 = Some (session 2 (tenths 2) None 32400) \<and>
   fetch_latest (todays_rows tied_swapped ''E1'' day1) = Some (session 2 (tenths 2) None 32400)"
proof -
  have a: "created_last one_back ''E1'' day1 = Some (session 2 (clock_time 8 10 0) None 29400)"
    by (simp add: ledger_eval one_back_def)
  have b: "fetch_latest (todays_rows one_back ''E1'' day1) =
     Some (session 1 (clock_time 9 0 0) (Some (clock_time 9 5 0)) 32400)"
    by (simp add: ledger_eval one_back_def)
  have c: "created_last tied_first ''E1'' day1 = Some (session 2 (tenths 5) None 32400)"
    by (simp add: ledger_eval tied_first_def)
  have d: "fetch_latest (todays_rows tied_first ''E1'' day1) = Some (session 1 (tenths 1) (Some (tenths 3)) 32400)"
    by (simp add: ledger_eval tied_first_def)
  have e: "created_last tied_swapped ''E1'' day1 = Some (session 2 (tenths 2) None 32400)"
    by (simp add: ledger_eval tied_swapped_def)
  have f: "fetch_latest (todays_rows tied_swapped ''E1'' day1) = Some (session 2 (tenths 2) None 32400)"
    by (simp add: ledger_eval tied_swapped_def)
  from db_one_back a b db_tied_first c d db_tied_swapped e f show ?thesis by (intro conjI)
qed

subsection \<open>Tables the program builds\<close>

text \<open>
  An UPDATE of \<^verbatim>\<open>time_out\<close> changes neither which rows an employee has on a day nor which of
  them the SELECT returns. So in every table the program builds, a session that was
  created last and is closed is the one the SELECT returns: it was returned when it was
  closed, and no session of its employee and day was inserted since.
\<close>

lemma update_time_out_ids: "map r_id (update_time_out rows aid now) = map r_id rows"
  by (induction rows) (simp_all add: update_time_out_def)

lemma update_time_out_created: "map r_created_at (update_time_out rs aid now) = map r_created_at rs"
  by (induction rs) (simp_all add: update_time_out_def)

lemma todays_rows_update:
  "todays_rows (update_time_out rows aid now) eid d = update_time_out (todays_rows rows eid d) aid now"
  by (induction rows) (simp_all add: todays_rows_def update_time_out_def)

lemma latest_created_update: "latest_created (update_time_out rs aid now) = latest_created rs"
  by (simp add: latest_created_def update_time_out_created)

lemma filter_created_update:
  "filter (\<lambda>r. r_created_at r = c) (update_time_out rs aid now)
     = update_time_out (filter (\<lambda>r. r_created_at r = c) rs) aid now"
  by (induction rs) (simp_all add: update_time_out_def)

lemma earliest_time_in_update:
  "earliest_time_in (update_time_out rs aid now)
     = map_option (\<lambda>r. if r_id r = aid then r\<lparr>r_time_out := Some now\<rparr> else r) (earliest_time_in rs)"
proof (induction rs)
  case Nil
  then show ?case by (simp add: update_time_out_def)
next
  case (Cons r rs)
  have c: "update_time_out (r # rs) aid now
      = (if r_id r = aid then r\<lparr>r_time_out := Some now\<rparr> else r) # update_time_out rs aid now"
    by (simp add: update_time_out_def)
  show ?case
    unfolding c by (cases "earliest_time_in rs") (simp_all add: Cons.IH)
qed

lemma fetch_latest_update:
  "fetch_latest (update_time_out rs aid now)
     = map_option (\<lambda>r. if r_id r = aid then r\<lparr>r_time_out := Some now\<rparr> else r) (fetch_latest rs)"
  by (simp add: fetch_latest_def latest_created_update filter_created_update earliest_time_in_update)

lemma update_time_out_Nil: "update_time_out rs aid now = [] \<longleftrightarrow> rs = []"
  by (simp add: update_time_out_def)

lemma created_last_update:
  "created_last (update_time_out rows aid now) eid d
     = map_option (\<lambda>r. if r_id r = aid then r\<lparr>r_time_out := Some now\<rparr> else r) (created_last rows eid d)"
proof (cases "todays_rows rows eid d = []")
  case True
  then have "update_time_out (todays_rows rows eid d) aid now = []"
    by (simp add: update_time_out_Nil)
  with True show ?thesis by (simp add: created_last_def todays_rows_update)
next
  case False
  then have ne: "update_time_out (todays_rows rows eid d) aid now \<noteq> []"
    by (simp add: update_time_out_Nil)
  from ne have "created_last (update_time_out rows aid now) eid d
      = Some (last (update_time_out (todays_rows rows eid d) aid now))"
    by (simp add: created_last_def todays_rows_update split: list.splits)
  also have "\<dots> = Some ((\<lambda>r. if r_id r = aid then r\<lparr>r_time_out := Some now\<rparr> else r) (last (todays_rows rows eid d)))"
    using False by (simp add: update_time_out_def last_map)
  also have "\<dots> = map_option (\<lambda>r. if r_id r = aid then r\<lparr>r_time_out := Some now\<rparr> else r) (created_last rows eid d)"
    using False by (simp add: created_last_def split: list.splits)
  finally show ?thesis .
qed

lemma created_last_mem:
  "created_last rows eid d = Some r \<Longrightarrow> r \<in> set rows \<and> r_employee_id r = eid \<and> r_date r = d"
proof -
  assume a: "created_last rows eid d = Some r"
  then have ne: "todays_rows rows eid d \<noteq> []" and r: "r = last (todays_rows rows eid d)"
    by (auto simp: created_last_def split: list.splits)
  from ne have "last (todays_rows rows eid d) \<in> set (todays_rows rows eid d)" by (rule last_in_set)
  with r show ?thesis by (simp add: todays_rows_def)
qed

lemma created_last_nonempty:
  "todays_rows rows eid d \<noteq> [] \<Longrightarrow> created_last rows eid d = Some (last (todays_rows rows eid d))"
  by (cases "todays_rows rows eid d") (simp_all add: created_last_def)

lemma created_last_None: "created_last rows eid d = None \<longleftrightarrow> todays_rows rows eid d = []"
  by (simp add: created_last_def split: list.splits)

lemma update_keeps_closed_last_selected:
  assumes inv: "closed_last_selected rows"
    and f: "fetch_latest (todays_rows rows eid0 today) = Some e"
  shows "closed_last_selected (update_time_out rows (r_id e) now)"
proof -
  let ?u = "\<lambda>r. if r_id r = r_id e then r\<lparr>r_time_out := Some now\<rparr> else r"
  from fetch_latest_Some[OF f] have e: "e \<in> set rows" "r_employee_id e = eid0" "r_date e = today"
    by (simp_all add: todays_rows_def)
  from inv have d: "distinct (map r_id rows)" by (simp add: closed_last_selected_def)
  have sel: "fetch_latest (todays_rows (update_time_out rows (r_id e) now) eid d) = Some r'"
    if c: "created_last (update_time_out rows (r_id e) now) eid d = Some r'"
      and cl: "r_time_out r' \<noteq> None" for eid d r'
  proof -
    from c obtain r where r: "created_last rows eid d = Some r" "r' = ?u r"
      by (auto simp: created_last_update)
    from created_last_mem[OF r(1)] have rm: "r \<in> set rows" "r_employee_id r = eid" "r_date r = d"
      by simp_all
    have "fetch_latest (todays_rows rows eid d) = Some r"
    proof (cases "r_id r = r_id e")
      case True
      with d rm(1) e(1) have "r = e" by (meson distinct_map inj_onD)
      with rm e f show ?thesis by simp
    next
      case False
      with r(2) have "r' = r" by simp
      with cl r(1) inv show ?thesis unfolding closed_last_selected_def by blast
    qed
    then show ?thesis by (simp add: todays_rows_update fetch_latest_update r(2))
  qed
  from d have "distinct (map r_id (update_time_out rows (r_id e) now))"
    by (simp add: update_time_out_ids)
  with sel show ?thesis unfolding closed_last_selected_def by blast
qed

lemma insert_keeps_closed_last_selected:
  assumes inv: "closed_last_selected rows"
    and ins: "insert_row rows emp today now clock = Inr rows'"
  shows "closed_last_selected rows'"
proof -
  define new where "new = \<lparr>r_id = next_id rows, r_employee_id = e_employee_id emp, r_name = e_name emp,
          r_date = today, r_time_in = now, r_time_out = None, r_status = ''Present'',
          r_created_at = clock\<rparr>"
  from ins have rows': "rows' = rows @ [new]"
    by (simp add: insert_row_def new_def split: if_splits)
  have fresh: "r_id new \<notin> r_id ` set rows"
    using next_id_fresh[of rows] by (simp add: new_def)
  have key: "r_employee_id new = e_employee_id emp" "r_date new = today" "r_time_out new = None"
    by (simp_all add: new_def)
  have sel: "fetch_latest (todays_rows rows' eid d) = Some r"
    if c: "created_last rows' eid d = Some r" and cl: "r_time_out r \<noteq> None" for eid d r
  proof (cases "eid = e_employee_id emp \<and> d = today")
    case True
    then have "todays_rows rows' eid d = todays_rows rows eid d @ [new]"
      by (simp add: rows' todays_rows_def key)
    then have "created_last rows' eid d = Some new"
      by (simp add: created_last_nonempty)
    with c cl key show ?thesis by simp
  next
    case False
    then have same: "todays_rows rows' eid d = todays_rows rows eid d"
      by (auto simp: rows' todays_rows_def key)
    then have "created_last rows' eid d = created_last rows eid d"
      by (simp add: created_last_def)
    with c cl inv same show ?thesis unfolding closed_last_selected_def by simp
  qed
  from inv fresh have "distinct (map r_id rows')"
    by (simp add: rows' closed_last_selected_def)
  with sel show ?thesis unfolding closed_last_selected_def by blast
qed

lemma mark_one_keeps_closed_last_selected:
  assumes inv: "closed_last_selected rows"
    and run: "mark_one today now rows emp clock = Inr (rows', out)"
  shows "closed_last_selected rows'"
proof (cases "fetch_latest (todays_rows rows (e_employee_id emp) today)")
  case None
  with run have "insert_row rows emp today now clock = Inr rows'"
    by (simp add: mark_one_def split: sum.splits)
  from insert_keeps_closed_last_selected[OF inv this] show ?thesis .
next
  case f: (Some e)
  show ?thesis
  proof (cases "r_time_out e")
    case None
    with run f have "rows' = update_time_out rows (r_id e) now"
      by (simp add: mark_one_def)
    with update_keeps_closed_last_selected[OF inv f] show ?thesis by simp
  next
    case (Some t)
    with run f have "insert_row rows emp today now clock = Inr rows'"
      by (simp add: mark_one_def split: sum.splits)
    from insert_keeps_closed_last_selected[OF inv this] show ?thesis .
  qed
qed

lemma reachable_closed_last_selected: "reachable rows \<Longrightarrow> closed_last_selected rows"
proof (induction rule: reachable.induct)
  case empty
  show ?case by (simp add: closed_last_selected_def created_last_def todays_rows_def)
next
  case (event rows today current_time emp clock rows' out)
  from mark_one_keeps_closed_last_selected[OF event.IH event.hyps(2)] show ?case .
qed

text \<open>Tables left by the loop and by sequences of calls are among the reachable ones.\<close>

lemma mark_loop_reachable:
  "reachable rows \<Longrightarrow> mark_loop today now rows events acc = Inr (rows', recs) \<Longrightarrow> reachable rows'"
proof (induction events arbitrary: rows acc)
  case Nil
  then show ?case by simp
next
  case (Cons ev events)
  obtain emp clock where ev: "ev = (emp, clock)" by (cases ev)
  from Cons.prems(2) obtain rows1 out where
    one: "mark_one today now rows emp clock = Inr (rows1, out)"
    and rest: "mark_loop today now rows1 events (acc @ [out]) = Inr (rows', recs)"
    unfolding ev by (auto split: sum.splits)
  from reachable.event[OF Cons.prems(1) one] have "reachable rows1" .
  from Cons.IH[OF this rest] show ?case .
qed

lemma run_batches_reachable:
  "reachable (db st) \<Longrightarrow> reachable (db (run_batches sql_time st bs))"
proof (induction bs arbitrary: st)
  case Nil
  then show ?case by simp
next
  case (Cons b bs)
  show ?case
  proof (cases "mark_attendance sql_time (b_today b) (b_time b) (b_today2 b) (b_excel b) st (b_events b)")
    case (Inl e)
    with Cons show ?thesis by simp
  next
    case (Inr p)
    obtain st' recs where p: "p = (st', recs)" by (cases p)
    from Inr[unfolded p] obtain rows' where
      "mark_loop (b_today b) (b_time b) (db st) (b_events b) [] = Inr (rows', recs)" "db st' = rows'"
      by (auto simp: mark_attendance_def split: sum.splits)
    with mark_loop_reachable[OF Cons.prems] have "reachable (db st')" by simp
    from Cons.IH[OF this] Inr p show ?thesis by simp
  qed
qed

lemma reachable_from_initial: "reachable (db (run_batches sql_time initial bs))"
  by (rule run_batches_reachable) (simp add: initial_def reachable.empty)

text \<open>
  The table is in the order of its ids: the session created last is the one with the
  greatest id among the sessions of its employee and day.
\<close>

lemma next_id_greater: "x \<in> set rows \<Longrightarrow> r_id x < next_id rows"
proof -
  assume "x \<in> set rows"
  then have "r_id x \<in> set (map r_id rows)" by simp
  from fold_max_upper[OF this, of 0] show ?thesis by (simp add: next_id_def)
qed

lemma mark_one_keeps_ids_increasing:
  assumes s: "sorted_wrt (<) (map r_id rows)"
    and run: "mark_one today now rows emp clock = Inr (rows', out)"
  shows "sorted_wrt (<) (map r_id rows')"
proof -
  from run have "rows' = update_time_out rows (r_id (the (fetch_latest (todays_rows rows (e_employee_id emp) today)))) now
      \<or> insert_row rows emp today now clock = Inr rows'"
    by (auto simp: mark_one_def split: option.splits sum.splits)
  then show ?thesis
  proof
    assume "rows' = update_time_out rows (r_id (the (fetch_latest (todays_rows rows (e_employee_id emp) today)))) now"
    with s show ?thesis by (simp add: update_time_out_ids)
  next
    assume "insert_row rows emp today now clock = Inr rows'"
    then have "map r_id rows' = map r_id rows @ [next_id rows]"
      by (auto simp: insert_row_def split: if_splits)
    with s show ?thesis by (auto simp: sorted_wrt_append next_id_greater)
  qed
qed

lemma reachable_ids_increasing: "reachable rows \<Longrightarrow> sorted_wrt (<) (map r_id rows)"
proof (induction rule: reachable.induct)
  case empty
  show ?case by simp
next
  case (event rows today current_time emp clock rows' out)
  from mark_one_keeps_ids_increasing[OF event.IH event.hyps(2)] show ?case .
qed

lemma created_last_greatest_id:
  assumes re: "reachable rows" and c: "created_last rows eid d = Some r"
    and x: "x \<in> set rows" "r_employee_id x = eid" "r_date x = d"
  shows "r_id x \<le> r_id r"
proof -
  let ?rs = "todays_rows rows eid d"
  from x have xm: "x \<in> set ?rs" by (simp add: todays_rows_def)
  then have ne: "?rs \<noteq> []" by auto
  with c have r: "r = last ?rs" by (simp add: created_last_nonempty)
  from reachable_ids_increasing[OF re] have "sorted_wrt (<) (map r_id ?rs)"
    unfolding todays_rows_def sorted_wrt_map by (rule sorted_wrt_filter)
  then have srt: "sorted_wrt (\<lambda>a b. r_id a < r_id b) ?rs" by (simp add: sorted_wrt_map)
  from ne have split: "?rs = butlast ?rs @ [last ?rs]" by simp
  show ?thesis
  proof (cases "x = last ?rs")
    case True
    with r show ?thesis by simp
  next
    case False
    with xm split have "x \<in> set (butlast ?rs)" by (metis Un_iff empty_iff empty_set set_ConsD set_append)
    with srt split have "r_id x < r_id (last ?rs)"
      by (metis list.set_intros(1) sorted_wrt_append)
    with r show ?thesis by simp
  qed
qed

subsection \<open>Punch in\<close>

text \<open>
  Claim C2, as amended. In a table the program has built, when the employee has no
  session today, or the session created last for the employee today is closed, and no
  session of the employee today already has the current time as \<^verbatim>\<open>time_in\<close>, the event
  appends one row with a new id, \<^verbatim>\<open>time_in\<close> the current time and no \<^verbatim>\<open>time_out\<close>, changes no
  other row, and returns a record without \<^verbatim>\<open>time_out\<close>. When such a session exists, the
  INSERT violates the uniqueness constraint and the call raises.
\<close>

theorem mark_one_punch_in:
  assumes re: "reachable rows"
    and st: "created_last rows (e_employee_id emp) today = None \<or>
           (\<exists>r. created_last rows (e_employee_id emp) today = Some r \<and> r_time_out r \<noteq> None)"
  shows "(\<not> unique_violation rows (e_employee_id emp) today now \<longrightarrow>
            (\<exists>new. mark_one today now rows emp clock =
                     Inr (rows @ [new], punch_in_record emp today now) \<and>
                   r_id new \<notin> r_id ` set rows \<and>
                   r_employee_id new = e_employee_id emp \<and> r_name new = e_name emp \<and>
                   r_date new = today \<and> r_time_in new = now \<and> r_time_out new = None \<and>
                   r_status new = ''Present'' \<and> r_created_at new = clock) \<and>
            a_time_out (punch_in_record emp today now) = None \<and>
            a_time_in (punch_in_record emp today now) = time_strftime now) \<and>
         (unique_violation rows (e_employee_id emp) today now \<longrightarrow>
            mark_one today now rows emp clock = Inl IntegrityError)"
proof -
  have ins: "mark_one today now rows emp clock =
     (case insert_row rows emp today now clock of
        Inl e \<Rightarrow> Inl e
      | Inr rows' \<Rightarrow> Inr (rows', punch_in_record emp today now))"
    using st
  proof
    assume "created_last rows (e_employee_id emp) today = None"
    then have "fetch_latest (todays_rows rows (e_employee_id emp) today) = None"
      by (simp add: fetch_latest_None created_last_None)
    then show ?thesis by (simp add: mark_one_def)
  next
    assume "\<exists>r. created_last rows (e_employee_id emp) today = Some r \<and> r_time_out r \<noteq> None"
    then obtain r where r: "created_last rows (e_employee_id emp) today = Some r" "r_time_out r \<noteq> None"
      by blast
    with reachable_closed_last_selected[OF re]
    have "fetch_latest (todays_rows rows (e_employee_id emp) today) = Some r"
      unfolding closed_last_selected_def by blast
    with r(2) show ?thesis by (auto simp: mark_one_def)
  qed
  show ?thesis
    unfolding ins using next_id_fresh[of rows]
    by (simp add: insert_row_def punch_in_record_def)
qed

theorem mark_one_punch_in_witness:
  "mark_one day1 (clock_time 9 0 0) [] emp_e1 100 =
     Inr ([session 1 (clock_time 9 0 0) None 100],
          \<lparr>a_employee_id = ''E1'', a_name = ''Eve'', a_date = ''2024-03-11'',
           a_time_in = ''09:00:00'', a_time_out = None, a_status = ''Present''\<rparr>) \<and>
   mark_one day1 (clock_time 17 30 0) [session 1 (clock_time 9 0 0) (Some (clock_time 17 0 0)) 100]
       emp_e1 300 =
     Inr ([session 1 (clock_time 9 0 0) (Some (clock_time 17 0 0)) 100,
           session 2 (clock_time 17 30 0) None 300],
          \<lparr>a_employee_id = ''E1'', a_name = ''Eve'', a_date = ''2024-03-11'',
           a_time_in = ''17:30:00'', a_time_out = None, a_status = ''Present''\<rparr>) \<and>
   mark_one day1 (clock_time 9 0 0) [session 1 (clock_time 9 0 0) (Some (clock_time 17 0 0)) 100]
       emp_e1 300 = Inl IntegrityError"
proof -
  let ?closed = "[session 1 (clock_time 9 0 0) (Some (clock_time 17 0 0)) 100]"
  have r1: "reachable []" by (rule reachable.empty)
  have r2: "reachable ?closed"
    using reachable_from_initial[of sqlite_time
        "[call_at (clock_time 9 0 0) 100, call_at (clock_time 17 0 0) 200]"]
    by (simp only: db_closed_once)
  have h1: "created_last [] (e_employee_id emp_e1) day1 = None \<or>
           (\<exists>r. created_last [] (e_employee_id emp_e1) day1 = Some r \<and> r_time_out r \<noteq> None)"
    by (simp add: created_last_def todays_rows_def)
  have h2: "created_last ?closed (e_employee_id emp_e1) day1 = None \<or>
           (\<exists>r. created_last ?closed (e_employee_id emp_e1) day1 = Some r \<and> r_time_out r \<noteq> None)"
    by (simp add: ledger_eval)
  have v1: "\<not> unique_violation [] (e_employee_id emp_e1) day1 (clock_time 9 0 0)"
    by (simp add: unique_violation_def)
  have v2: "\<not> unique_violation ?closed (e_employee_id emp_e1) day1 (clock_time 17 30 0)"
    by (simp add: ledger_eval)
  have v3: "unique_violation ?closed (e_employee_id emp_e1) day1 (clock_time 9 0 0)"
    by (simp add: ledger_eval)
  from mark_one_punch_in[OF r1 h1, of "clock_time 9 0 0" 100] v1
  have n1: "a_time_out (punch_in_record emp_e1 day1 (clock_time 9 0 0)) = None"
    by blast
  from mark_one_punch_in[OF r2 h2, of "clock_time 17 30 0" 300] v2
  have n2: "\<exists>new. mark_one day1 (clock_time 17 30 0) ?closed emp_e1 300 =
      Inr (?closed @ [new], punch_in_record emp_e1 day1 (clock_time 17 30 0))"
    by blast
  from mark_one_punch_in[OF r2 h2, of "clock_time 9 0 0" 300] v3
  have n3: "mark_one day1 (clock_time 9 0 0) ?closed emp_e1 300 = Inl IntegrityError"
    by blast
  have e1: "mark_one day1 (clock_time 9 0 0) [] emp_e1 100 =
     Inr ([session 1 (clock_time 9 0 0) None 100],
          \<lparr>a_employee_id = ''E1'', a_name = ''Eve'', a_date = ''2024-03-11'',
           a_time_in = ''09:00:00'', a_time_out = None, a_status = ''Present''\<rparr>)"
    by (simp add: ledger_eval)
  have e2: "mark_one day1 (clock_time 17 30 0) ?closed emp_e1 300 =
     Inr ([session 1 (clock_time 9 0 0) (Some (clock_time 17 0 0)) 100,
           session 2 (clock_time 17 30 0) None 300],
          \<lparr>a_employee_id = ''E1'', a_name = ''Eve'', a_date = ''2024-03-11'',
           a_time_in = ''17:30:00'', a_time_out = None, a_status = ''Present''\<rparr>)"
    by (simp add: ledger_eval)
  from n1 n2 e1 e2 n3 show ?thesis by (intro conjI)
qed

text \<open>
  The claim as first stated fails: with a closed most recent session whose \<^verbatim>\<open>time_in\<close> is
  the current time, no session is created. The list \<open>[e, e]\<close> builds that table, and the
  list \<open>[e, e, e]\<close> handed to \<^verbatim>\<open>mark_attendance\<close> on the empty ledger raises in its third
  iteration.
\<close>

theorem mark_one_punch_in_counterexample:
  "mark_loop day1 (clock_time 9 0 0) [] [(emp_e1, 100), (emp_e1, 100)] [] =
     Inr ([session 1 (clock_time 9 0 0) (Some (clock_time 9 0 0)) 100],
          [\<lparr>a_employee_id = ''E1'', a_name = ''Eve'', a_date = ''2024-03-11'',
            a_time_in = ''09:00:00'', a_time_out = None, a_status = ''Present''\<rparr>,
           \<lparr>a_employee_id = ''E1'', a_name = ''Eve'', a_date = ''2024-03-11'',
            a_time_in = ''09:00:00'', a_time_out = Some ''09:00:00'', a_status = ''Present''\<rparr>]) \<and>
   created_last [session 1 (clock_time 9 0 0) (Some (clock_time 9 0 0)) 100] ''E1'' day1
     = Some (session 1 (clock_time 9 0 0) (Some (clock_time 9 0 0)) 100) \<and>
   r_time_out (session 1 (clock_time 9 0 0) (Some (clock_time 9 0 0)) 100) = Some (clock_time 9 0 0) \<and>
   mark_one day1 (clock_time 9 0 0) [session 1 (clock_time 9 0 0) (Some (clock_time 9 0 0)) 100]
     emp_e1 100 = Inl IntegrityError \<and>
   mark_attendance sqlite_time day1 (clock_time 9 0 0) day1 Saved initial
     [(emp_e1, 100), (emp_e1, 100), (emp_e1, 100)] = Inl IntegrityError"
  by (simp add: ledger_eval call_eval)

subsection \<open>Punch out\<close>

text \<open>What does hold: when the row the SELECT returns is open, that row gets its \<^verbatim>\<open>time_out\<close>.\<close>

lemma mark_one_selected_open:
  assumes f: "fetch_latest (todays_rows rows (e_employee_id emp) today) = Some r"
    and o: "r_time_out r = None"
  shows "mark_one today now rows emp clock =
           Inr (map (\<lambda>x. if r_id x = r_id r then x\<lparr>r_time_out := Some now\<rparr> else x) rows,
                \<lparr>a_employee_id = e_employee_id emp, a_name = e_name emp,
                 a_date = date_isoformat today, a_time_in = time_isoformat (r_time_in r),
                 a_time_out = Some (time_strftime now), a_status = ''Present''\<rparr>)"
  using f o by (simp add: mark_one_def update_time_out_def)

text \<open>
  Claim C3 does not hold of the code. In the ledger \<open>one_back\<close> the session created last
  for the employee today, session 2, is open; the event does not set its \<^verbatim>\<open>time_out\<close>: the
  SELECT returns the closed session 1, and the event opens session 3 and returns a
  punch-in record. The same happens in \<open>tied_first\<close>, within one second of the engine's
  clock.
\<close>

theorem last_session_open_not_closed:
  "db (run_batches sqlite_time initial
        [call_at (clock_time 9 0 0) 32400, call_at (clock_time 9 5 0) 32700,
         call_at (clock_time 8 10 0) 29400]) = one_back \<and>
   created_last one_back ''E1'' day1 = Some (session 2 (clock_time 8 10 0) None 29400) \<and>
   mark_one day1 (clock_time 8 20 0) one_back emp_e1 30000 =
     Inr (one_back @ [session 3 (clock_time 8 20 0) None 30000],
          \<lparr>a_employee_id = ''E1'', a_name = ''Eve'', a_date = ''2024-03-11'',
           a_time_in = ''08:20:00'', a_time_out = None, a_status = ''Present''\<rparr>) \<and>
   db (run_batches sqlite_time initial
        [call_at (tenths 1) 32400, call_at (tenths 3) 32400, call_at (tenths 5) 32400]) = tied_first \<and>
   created_last tied_first ''E1'' day1 = Some (session 2 (tenths 5) None 32400) \<and>
   mark_one day1 (tenths 7) tied_first emp_e1 32400 =
     Inr (tied_first @ [session 3 (tenths 7) None 32400],
          \<lparr>a_employee_id = ''E1'', a_name = ''Eve'', a_date = ''2024-03-11'',
           a_time_in = ''09:00:00'', a_time_out = None, a_status = ''Present''\<rparr>)"
proof -
  have a: "created_last one_back ''E1'' day1 = Some (session 2 (clock_time 8 10 0) None 29400)"
    by (simp add: ledger_eval one_back_def)
  have b: "mark_one day1 (clock_time 8 20 0) one_back emp_e1 30000 =
     Inr (one_back @ [session 3 (clock_time 8 20 0) None 30000],
          \<lparr>a_employee_id = ''E1'', a_name = ''Eve'', a_date = ''2024-03-11'',
           a_time_in = ''08:20:00'', a_time_out = None, a_status = ''Present''\<rparr>)"
    by (simp add: ledger_eval one_back_def)
  have c: "created_last tied_first ''E1'' day1 = Some (session 2 (tenths 5) None 32400)"
    by (simp add: ledger_eval tied_first_def)
  have d: "mark_one day1 (tenths 7) tied_first emp_e1 32400 =
     Inr (tied_first @ [session 3 (tenths 7) None 32400],
          \<lparr>a_employee_id = ''E1'', a_name = ''Eve'', a_date = ''2024-03-11'',
           a_time_in = ''09:00:00'', a_time_out = None, a_status = ''Present''\<rparr>)"
    by (simp add: ledger_eval tied_first_def)
  from db_one_back a b db_tied_first c d show ?thesis by (intro conjI)
qed

subsection \<open>Two open sessions\<close>

text \<open>
  Claim C5 does not hold of the code. Four calls for one employee on one day, the clock
  set back by an hour after the second: the third call opens session 2, whose
  \<^verbatim>\<open>created_at\<close> is earlier than the one of the closed session 1; the fourth call finds
  session 1 as the most recent, sees it closed, and opens session 3 while session 2 is
  still open. The same happens to four calls within one second of the engine's clock.
\<close>

theorem two_open_sessions_reached:
  "db (run_batches sqlite_time initial
        [call_at (clock_time 9 0 0) 32400, call_at (clock_time 9 5 0) 32700,
         call_at (clock_time 8 10 0) 29400]) =
     [session 1 (clock_time 9 0 0) (Some (clock_time 9 5 0)) 32400,
      session 2 (clock_time 8 10 0) None 29400] \<and>
   at_most_one_open [session 1 (clock_time 9 0 0) (Some (clock_time 9 5 0)) 32400,
      session 2 (clock_time 8 10 0) None 29400] \<and>
   db (run_batches sqlite_time initial
        [call_at (clock_time 9 0 0) 32400, call_at (clock_time 9 5 0) 32700,
         call_at (clock_time 8 10 0) 29400, call_at (clock_time 8 20 0) 30000]) = two_open \<and>
   open_sessions two_open ''E1'' day1 =
     [session 2 (clock_time 8 10 0) None 29400, session 3 (clock_time 8 20 0) None 30000] \<and>
   \<not> at_most_one_open two_open \<and>
   db (run_batches sqlite_time initial
        [call_at (tenths 1) 32400, call_at (tenths 3) 32400, call_at (tenths 5) 32400,
         call_at (tenths 7) 32400]) = two_open_tied \<and>
   open_sessions two_open_tied ''E1'' day1 =
     [session 2 (tenths 5) None 32400, session 3 (tenths 7) None 32400] \<and>
   \<not> at_most_one_open two_open_tied"
proof -
  have a: "db (run_batches sqlite_time initial
        [call_at (clock_time 9 0 0) 32400, call_at (clock_time 9 5 0) 32700,
         call_at (clock_time 8 10 0) 29400]) =
     [session 1 (clock_time 9 0 0) (Some (clock_time 9 5 0)) 32400,
      session 2 (clock_time 8 10 0) None 29400]"
    by (simp add: ledger_eval call_eval)
  have b: "at_most_one_open [session 1 (clock_time 9 0 0) (Some (clock_time 9 5 0)) 32400,
      session 2 (clock_time 8 10 0) None 29400]"
    by (simp add: at_most_one_open_def open_sessions_def session_def)
  have c: "db (run_batches sqlite_time initial
        [call_at (clock_time 9 0 0) 32400, call_at (clock_time 9 5 0) 32700,
         call_at (clock_time 8 10 0) 29400, call_at (clock_time 8 20 0) 30000]) = two_open"
    by (simp add: ledger_eval call_eval two_open_def)
  have d: "open_sessions two_open ''E1'' day1 =
     [session 2 (clock_time 8 10 0) None 29400, session 3 (clock_time 8 20 0) None 30000]"
    by (simp add: open_sessions_def two_open_def session_def)
  have e: "\<not> at_most_one_open two_open"
  proof
    assume "at_most_one_open two_open"
    then have "length (open_sessions two_open ''E1'' day1) \<le> 1"
      unfolding at_most_one_open_def by blast
    then show False unfolding d by simp
  qed
  have f: "db (run_batches sqlite_time initial
        [call_at (tenths 1) 32400, call_at (tenths 3) 32400, call_at (tenths 5) 32400,
         call_at (tenths 7) 32400]) = two_open_tied"
    by (simp add: ledger_eval call_eval two_open_tied_def)
  have g: "open_sessions two_open_tied ''E1'' day1 =
     [session 2 (tenths 5) None 32400, session 3 (tenths 7) None 32400]"
    by (simp add: open_sessions_def two_open_tied_def session_def)
  have h: "\<not> at_most_one_open two_open_tied"
  proof
    assume "at_most_one_open two_open_tied"
    then have "length (open_sessions two_open_tied ''E1'' day1) \<le> 1"
      unfolding at_most_one_open_def by blast
    then show False unfolding g by simp
  qed
  from a b c d e f g h show ?thesis by (intro conjI)
qed

subsection \<open>When the open session stays unique\<close>

text \<open>
  With distinct ids and every open session created strictly last among the sessions of its
  employee and day, no employee has two open sessions on a day. An UPDATE and an INSERT
  keep that state as long as the engine's clock is ahead of the sessions the employee has
  today.
\<close>

lemma open_is_latest_at_most_one:
  assumes "open_is_latest rows"
  shows "at_most_one_open rows"
  unfolding at_most_one_open_def
proof (intro allI)
  fix eid d
  let ?os = "open_sessions rows eid d"
  from assms have "distinct rows" by (simp add: open_is_latest_def distinct_map)
  then have dist: "distinct ?os" by (simp add: open_sessions_def)
  show "length ?os \<le> 1"
  proof (rule ccontr)
    assume "\<not> length ?os \<le> 1"
    then obtain a b rest where os: "?os = a # b # rest"
      by (cases ?os; cases "tl ?os") auto
    with dist have ne: "a \<noteq> b" by auto
    from os have "a \<in> set ?os" "b \<in> set ?os" by simp_all
    then have a: "a \<in> set rows" "r_employee_id a = eid" "r_date a = d" "r_time_out a = None"
      and b: "b \<in> set rows" "r_employee_id b = eid" "r_date b = d" "r_time_out b = None"
      by (simp_all add: open_sessions_def)
    from assms a b ne have "r_created_at b < r_created_at a"
      unfolding open_is_latest_def by blast
    moreover from assms a b ne have "r_created_at a < r_created_at b"
      unfolding open_is_latest_def by metis
    ultimately show False by simp
  qed
qed

lemma update_keeps_open_is_latest:
  assumes "open_is_latest rows"
  shows "open_is_latest (update_time_out rows aid now)"
proof -
  let ?u = "\<lambda>r. if r_id r = aid then r\<lparr>r_time_out := Some now\<rparr> else r"
  have rows': "update_time_out rows aid now = map ?u rows" by (simp add: update_time_out_def)
  have keep: "r_employee_id (?u y) = r_employee_id y" "r_date (?u y) = r_date y"
    "r_created_at (?u y) = r_created_at y" for y
    by simp_all
  have "r_created_at y' < r_created_at r'"
    if r': "r' \<in> set (update_time_out rows aid now)" "r_time_out r' = None"
      and y': "y' \<in> set (update_time_out rows aid now)" "r_employee_id y' = r_employee_id r'" "r_date y' = r_date r'" "y' \<noteq> r'"
    for r' y'
  proof -
    from r'(1) obtain x where x: "x \<in> set rows" "r' = ?u x" unfolding rows' by auto
    with r'(2) have xr: "r' = x" by (auto split: if_splits)
    from y'(1) obtain y where y: "y \<in> set rows" "y' = ?u y" unfolding rows' by auto
    from y'(4) xr y(2) x(2) have "y \<noteq> x" by auto
    moreover from y'(2,3) y(2) xr have "r_employee_id y = r_employee_id x" "r_date y = r_date x"
      by (simp_all split: if_splits)
    ultimately have "r_created_at y < r_created_at x"
      using assms x(1) y(1) r'(2) xr unfolding open_is_latest_def by blast
    with y(2) xr show ?thesis by (simp split: if_splits)
  qed
  moreover from assms have "distinct (map r_id (update_time_out rows aid now))"
    by (simp add: open_is_latest_def update_time_out_ids)
  ultimately show ?thesis unfolding open_is_latest_def rows'[symmetric] by blast
qed

lemma insert_keeps_open_is_latest:
  assumes inv: "open_is_latest rows"
    and ins: "insert_row rows emp today now clock = Inr rows'"
    and ahead: "\<forall>x \<in> set (todays_rows rows (e_employee_id emp) today). r_created_at x < clock"
    and none_open: "\<forall>x \<in> set (todays_rows rows (e_employee_id emp) today). r_time_out x \<noteq> None"
  shows "open_is_latest rows'"
proof -
  define new where "new = \<lparr>r_id = next_id rows, r_employee_id = e_employee_id emp, r_name = e_name emp,
          r_date = today, r_time_in = now, r_time_out = None, r_status = ''Present'',
          r_created_at = clock\<rparr>"
  from ins have rows': "rows' = rows @ [new]"
    by (simp add: insert_row_def new_def split: if_splits)
  have fresh: "r_id new \<notin> r_id ` set rows"
    using next_id_fresh[of rows] by (simp add: new_def)
  have key: "r_employee_id new = e_employee_id emp" "r_date new = today" "r_created_at new = clock"
    by (simp_all add: new_def)
  have "r_created_at y < r_created_at r"
    if r: "r \<in> set rows'" "r_time_out r = None"
      and y: "y \<in> set rows'" "r_employee_id y = r_employee_id r" "r_date y = r_date r" "y \<noteq> r"
    for r y
  proof (cases "r = new")
    case True
    with y rows' have "y \<in> set rows" by auto
    with y(2,3) True key have "y \<in> set (todays_rows rows (e_employee_id emp) today)"
      by (simp add: todays_rows_def)
    with ahead True key show ?thesis by simp
  next
    case False
    with r(1) rows' have rin: "r \<in> set rows" by auto
    show ?thesis
    proof (cases "y = new")
      case True
      with y(2,3) key rin have "r \<in> set (todays_rows rows (e_employee_id emp) today)"
        by (simp add: todays_rows_def)
      with none_open r(2) show ?thesis by blast
    next
      case False
      with y(1) rows' have "y \<in> set rows" by auto
      with inv rin r(2) y(2,3,4) show ?thesis unfolding open_is_latest_def by blast
    qed
  qed
  moreover from inv fresh have "distinct (map r_id rows')"
    by (simp add: rows' open_is_latest_def)
  ultimately show ?thesis unfolding open_is_latest_def by blast
qed

lemma closed_latest_none_open:
  assumes inv: "open_is_latest rows"
    and f: "fetch_latest (todays_rows rows eid today) = Some e"
    and c: "r_time_out e \<noteq> None"
  shows "\<forall>x \<in> set (todays_rows rows eid today). r_time_out x \<noteq> None"
proof
  fix x assume x: "x \<in> set (todays_rows rows eid today)"
  show "r_time_out x \<noteq> None"
  proof
    assume o: "r_time_out x = None"
    from fetch_latest_Some[OF f] have e: "e \<in> set (todays_rows rows eid today)" by simp
    from o c have "e \<noteq> x" by auto
    with inv x e o have "r_created_at e < r_created_at x"
      unfolding open_is_latest_def by (auto simp: todays_rows_def)
    with fetch_latest_max[OF f x] show False by simp
  qed
qed

lemma mark_one_keeps_open_is_latest:
  assumes inv: "open_is_latest rows"
    and ahead: "\<forall>x \<in> set (todays_rows rows (e_employee_id emp) today). r_created_at x < clock"
    and run: "mark_one today now rows emp clock = Inr (rows', out)"
  shows "open_is_latest rows'"
proof (cases "fetch_latest (todays_rows rows (e_employee_id emp) today)")
  case None
  then have "todays_rows rows (e_employee_id emp) today = []" by (simp add: fetch_latest_None)
  then have no: "\<forall>x \<in> set (todays_rows rows (e_employee_id emp) today). r_time_out x \<noteq> None"
    by simp
  from run None have "insert_row rows emp today now clock = Inr rows'"
    by (simp add: mark_one_def split: sum.splits)
  from insert_keeps_open_is_latest[OF inv this ahead no] show ?thesis .
next
  case (Some e)
  show ?thesis
  proof (cases "r_time_out e")
    case None
    with run Some have "rows' = update_time_out rows (r_id e) now"
      by (simp add: mark_one_def)
    with update_keeps_open_is_latest[OF inv] show ?thesis by simp
  next
    case (Some t)
    then have c: "r_time_out e \<noteq> None" by simp
    from run \<open>fetch_latest (todays_rows rows (e_employee_id emp) today) = Some e\<close> Some
    have "insert_row rows emp today now clock = Inr rows'"
      by (simp add: mark_one_def split: sum.splits)
    from insert_keeps_open_is_latest[OF inv this ahead
        closed_latest_none_open[OF inv \<open>fetch_latest (todays_rows rows (e_employee_id emp) today) = Some e\<close> c]]
    show ?thesis .
  qed
qed

lemma mark_loop_keeps_open_is_latest:
  "open_is_latest rows \<Longrightarrow> clock_ahead today now rows events \<Longrightarrow>
   mark_loop today now rows events acc = Inr (rows', recs) \<Longrightarrow> open_is_latest rows'"
proof (induction events arbitrary: rows acc)
  case Nil
  then show ?case by simp
next
  case (Cons ev events)
  obtain emp clock where ev: "ev = (emp, clock)" by (cases ev)
  from Cons.prems(3) obtain rows1 out where
    one: "mark_one today now rows emp clock = Inr (rows1, out)"
    and rest: "mark_loop today now rows1 events (acc @ [out]) = Inr (rows', recs)"
    unfolding ev by (auto split: sum.splits)
  from Cons.prems(2) one have ahead: "\<forall>x \<in> set (todays_rows rows (e_employee_id emp) today). r_created_at x < clock"
    and ahead': "clock_ahead today now rows1 events"
    unfolding ev by simp_all
  from mark_one_keeps_open_is_latest[OF Cons.prems(1) ahead one] have "open_is_latest rows1" .
  from Cons.IH[OF this ahead' rest] show ?case .
qed

text \<open>
  What does hold of the ledger: while the engine's clock stays ahead, every call keeps
  at most one open session for every employee and day.
\<close>

lemma mark_attendance_keeps_one_open:
  assumes "open_is_latest (db st)" "clock_ahead today now (db st) events"
    and "mark_attendance sql_time today now today2 run st events = Inr (st', recs)"
  shows "open_is_latest (db st') \<and> at_most_one_open (db st')"
proof -
  from assms(3) obtain rows' where "mark_loop today now (db st) events [] = Inr (rows', recs)"
    and "db st' = rows'"
    by (auto simp: mark_attendance_def split: sum.splits)
  with mark_loop_keeps_open_is_latest[OF assms(1,2)] have "open_is_latest (db st')" by simp
  with open_is_latest_at_most_one show ?thesis by blast
qed

lemma initial_open_is_latest: "open_is_latest (db initial)"
  by (simp add: open_is_latest_def initial_def)

text \<open>
  While every open session was created strictly last by \<^verbatim>\<open>created_at\<close>, the event on an
  employee whose session created last is open does close that session.
\<close>

lemma punch_out_while_open_is_latest:
  assumes inv: "open_is_latest rows"
    and c: "created_last rows (e_employee_id emp) today = Some r"
    and o: "r_time_out r = None"
  shows "mark_one today now rows emp clock =
           Inr (map (\<lambda>x. if r_id x = r_id r then x\<lparr>r_time_out := Some now\<rparr> else x) rows,
                \<lparr>a_employee_id = e_employee_id emp, a_name = e_name emp,
                 a_date = date_isoformat today, a_time_in = time_isoformat (r_time_in r),
                 a_time_out = Some (time_strftime now), a_status = ''Present''\<rparr>)"
proof -
  from c have ne: "todays_rows rows (e_employee_id emp) today \<noteq> []"
    by (auto simp: created_last_None[symmetric])
  from c created_last_nonempty[OF ne] have "r = last (todays_rows rows (e_employee_id emp) today)"
    by simp
  with ne have mem: "r \<in> set (todays_rows rows (e_employee_id emp) today)" by simp
  have "\<forall>x \<in> set (todays_rows rows (e_employee_id emp) today). x \<noteq> r \<longrightarrow> r_created_at x < r_created_at r"
    using inv mem o unfolding open_is_latest_def by (auto simp: todays_rows_def)
  from fetch_latest_strictly_latest[OF mem this] o show ?thesis by (rule mark_one_selected_open)
qed

section \<open>The report: proofs\<close>

subsection \<open>The duration cell\<close>

text \<open>Digits and times hold no blank, so the split of a Timedelta's text has three words.\<close>

lemma digit_is_digit: "digit n \<in> set ''0123456789''"
  unfolding digit_def by (rule nth_mem) simp

lemma digit_not_blank: "digit n \<noteq> CHR '' ''" "CHR '' '' \<noteq> digit n"
  using digit_is_digit[of n] by auto

lemma split_acc_word:
  "CHR '' '' \<notin> set w \<Longrightarrow> cur @ w \<noteq> [] \<Longrightarrow>
   split_acc (w @ CHR '' '' # rest) cur = (cur @ w) # split_acc rest []"
  by (induction w arbitrary: cur) auto

lemma split_acc_last_word:
  "CHR '' '' \<notin> set w \<Longrightarrow> cur @ w \<noteq> [] \<Longrightarrow> split_acc w cur = [cur @ w]"
  by (induction w arbitrary: cur) auto

lemma hms_str_no_blank: "CHR '' '' \<notin> set (hms_str x)"
  by (cases x) (simp add: hms_str_def pad2_def digit_not_blank)

lemma hms_str_not_empty: "hms_str x \<noteq> []"
  by (cases x) (simp add: hms_str_def pad2_def)

lemma last_split_timedelta:
  assumes "CHR '' '' \<notin> set a" "a \<noteq> []" "CHR '' '' \<notin> set s" "CHR '' '' \<notin> set c" "s @ c \<noteq> []"
  shows "last (py_split (a @ '' days '' @ s @ c)) = s @ c"
proof -
  have "py_split (a @ '' days '' @ s @ c) = split_acc (a @ CHR '' '' # (''days'' @ CHR '' '' # (s @ c))) []"
    by (simp add: py_split_def)
  also have "\<dots> = a # split_acc (''days'' @ CHR '' '' # (s @ c)) []"
    using assms(1,2) by (subst split_acc_word) simp_all
  also have "\<dots> = a # ''days'' # split_acc (s @ c) []"
    by (subst split_acc_word) simp_all
  also have "\<dots> = [a, ''days'', s @ c]"
    using assms(3,4,5) by (subst split_acc_last_word) simp_all
  finally show ?thesis by simp
qed

lemma str_nat_not_empty: "str_nat n \<noteq> []"
  by (subst str_nat.simps) simp

lemma str_nat_no_blank: "CHR '' '' \<notin> set (str_nat n)"
proof (induction n rule: str_nat.induct)
  case (1 n)
  show ?case
  proof (cases "n < 10")
    case True
    then show ?thesis by (subst str_nat.simps) (simp add: digit_not_blank)
  next
    case False
    with 1 show ?thesis by (subst str_nat.simps) (simp add: digit_not_blank)
  qed
qed

lemma str_int_ok: "CHR '' '' \<notin> set (str_int i) \<and> str_int i \<noteq> []"
  by (simp add: str_int_def str_nat_no_blank str_nat_not_empty)

text \<open>The duration cell in general: the rest of the day, signed when the difference is negative.\<close>

lemma duration_cell_Some:
  "duration_cell tin (Some tout) =
     (let d = to_timedelta tout - to_timedelta tin; r = nat (d mod 86400)
      in (if d < 0 then ''+'' else '''') @ hms_str (r div 3600, r div 60 mod 60, r mod 60))"
proof -
  define d where "d = to_timedelta tout - to_timedelta tin"
  define r where "r = nat (d mod 86400)"
  define h where "h = hms_str (r div 3600, r div 60 mod 60, r mod 60)"
  have cell: "duration_cell tin (Some tout) = last (py_split (timedelta_str d))"
    by (simp add: duration_cell_def d_def)
  have h: "CHR '' '' \<notin> set h" "h \<noteq> []"
    by (simp_all add: h_def hms_str_no_blank hms_str_not_empty)
  have "last (py_split (timedelta_str d)) = (if d < 0 then ''+'' else '''') @ h"
  proof (cases "d < 0")
    case True
    then have neg: "d div 86400 < 0" by (simp add: pos_imp_zdiv_neg_iff)
    have "last (py_split (str_int (d div 86400) @ '' days '' @ ''+'' @ h)) = ''+'' @ h"
      using h by (intro last_split_timedelta) (simp_all add: str_int_ok)
    with True neg show ?thesis
      by (simp add: timedelta_str_def Let_def r_def h_def)
  next
    case False
    then have pos: "\<not> d div 86400 < 0" by (simp add: pos_imp_zdiv_neg_iff)
    have "last (py_split (str_int (d div 86400) @ '' days '' @ '''' @ h)) = '''' @ h"
      using h by (intro last_split_timedelta) (simp_all add: str_int_ok)
    with False pos show ?thesis
      by (simp add: timedelta_str_def Let_def r_def h_def)
  qed
  then show ?thesis
    unfolding cell by (simp add: Let_def d_def r_def h_def)
qed

text \<open>The words of the specification: the difference of the two times, as HH:MM:SS.\<close>

lemma duration_cell_forward:
  assumes "to_timedelta tin \<le> to_timedelta tout" "to_timedelta tout < 86400" "0 \<le> to_timedelta tin"
  shows "duration_cell tin (Some tout) =
     (let d = nat (to_timedelta tout - to_timedelta tin)
      in hms_str (d div 3600, d div 60 mod 60, d mod 60))"
proof -
  from assms have "(to_timedelta tout - to_timedelta tin) mod 86400 = to_timedelta tout - to_timedelta tin"
    by simp
  with assms(1) show ?thesis by (simp add: duration_cell_Some Let_def)
qed

lemma duration_cell_None: "duration_cell tin None = ''''"
  by (simp add: duration_cell_def)

lemmas export_eval =
  save_to_excel_def build_sheet_def query_today_def report_row_def excel_path_def
  sqlite_time_def hms_str_def to_timedelta_def duration_cell_Some duration_cell_None

text \<open>
  The duration column, row by row: empty without \<^verbatim>\<open>time_out\<close>; the difference as HH:MM:SS when
  \<^verbatim>\<open>time_out\<close> is not before \<^verbatim>\<open>time_in\<close>.
\<close>

lemma report_row_duration:
  "length (report_row sql_time r) = 7 \<and>
   report_row sql_time r ! 6 = duration_cell (sql_time (r_time_in r)) (map_option sql_time (r_time_out r)) \<and>
   (r_time_out r = None \<longrightarrow> report_row sql_time r ! 6 = '''' \<and> report_row sql_time r ! 4 = '''') \<and>
   (\<forall>t. r_time_out r = Some t \<and>
        0 \<le> to_timedelta (sql_time (r_time_in r)) \<and>
        to_timedelta (sql_time (r_time_in r)) \<le> to_timedelta (sql_time t) \<and>
        to_timedelta (sql_time t) < 86400 \<longrightarrow>
        report_row sql_time r ! 6 =
          (let d = nat (to_timedelta (sql_time t) - to_timedelta (sql_time (r_time_in r)))
           in hms_str (d div 3600, d div 60 mod 60, d mod 60)))"
  by (auto simp: report_row_def duration_cell_None duration_cell_forward)

lemma eight_hours:
  "report_row sqlite_time (session 1 (clock_time 9 0 0) (Some (clock_time 17 0 0)) 100) =
     [''E1'', ''Eve'', ''2024-03-11'', ''09:00:00'', ''17:00:00'', ''Present'', ''08:00:00'']"
  by (simp add: export_eval ledger_eval)

text \<open>
  Claim C7 does not hold of the code for a session whose \<^verbatim>\<open>time_out\<close> is earlier in the day
  than its \<^verbatim>\<open>time_in\<close> (the local clock went back between the two events): the difference
  is the Timedelta \<^verbatim>\<open>-1 days +23:20:00\<close>, and the last word of its text is what the report
  shows.
\<close>

theorem duration_of_backward_session:
  "db (run_batches sqlite_time initial
         [call_at (clock_time 1 50 0) 100, call_at (clock_time 1 10 0) 200]) =
     [session 1 (clock_time 1 50 0) (Some (clock_time 1 10 0)) 100] \<and>
   files (run_batches sqlite_time initial
         [call_at (clock_time 1 50 0) 100, call_at (clock_time 1 10 0) 200])
       ''attendance_logs/attendance_2024-03-11.xlsx'' =
     Some \<lparr>columns = [''employee_id'', ''name'', ''date'', ''time_in'', ''time_out'', ''status'',
                      ''duration''],
           cells = [[''E1'', ''Eve'', ''2024-03-11'', ''01:50:00'', ''01:10:00'', ''Present'',
                     ''+23:20:00'']]\<rparr> \<and>
   timedelta_str (to_timedelta (1, 10, 0) - to_timedelta (1, 50, 0)) = ''-1 days +23:20:00''"
proof -
  have a: "db (run_batches sqlite_time initial
         [call_at (clock_time 1 50 0) 100, call_at (clock_time 1 10 0) 200]) =
     [session 1 (clock_time 1 50 0) (Some (clock_time 1 10 0)) 100]"
    by (simp add: ledger_eval call_eval)
  have b: "files (run_batches sqlite_time initial
         [call_at (clock_time 1 50 0) 100, call_at (clock_time 1 10 0) 200])
       ''attendance_logs/attendance_2024-03-11.xlsx'' =
     Some \<lparr>columns = [''employee_id'', ''name'', ''date'', ''time_in'', ''time_out'', ''status'',
                      ''duration''],
           cells = [[''E1'', ''Eve'', ''2024-03-11'', ''01:50:00'', ''01:10:00'', ''Present'',
                     ''+23:20:00'']]\<rparr>"
    by (simp add: ledger_eval export_eval call_eval)
  have c: "timedelta_str (to_timedelta (1, 10, 0) - to_timedelta (1, 50, 0)) = ''-1 days +23:20:00''"
    by (simp add: timedelta_str_def to_timedelta_def hms_str_def pad2_def digit_def str_int_def
          str_nat.simps)
  from a b c show ?thesis by (intro conjI)
qed

subsection \<open>Rebuilding the report\<close>







section \<open>Registration: proofs\<close>

text \<open>The path found is unused, and writing then removing an unused path restores the folder.\<close>

lemma free_path_free: "\<not> path_exists fs (free_path fs base ext path counter)"
proof (induction fs base ext path counter rule: free_path.induct)
  case (1 fs base ext path counter)
  then show ?case by (subst free_path.simps) simp
qed

lemma remove_write_fresh: "\<not> path_exists fs p \<Longrightarrow> remove_file (write_file fs p c) p = fs"
  by (auto simp: remove_file_def write_file_def path_exists_def filter_id_conv image_iff)

lemma write_keeps_key:
  "fst (case y of (k, v) \<Rightarrow> if k = p then (k, c) else (k, v)) = fst y"
  by (cases y) simp

lemma path_exists_write: "path_exists (write_file fs p c) p"
proof (cases "path_exists fs p")
  case True
  have "fst ` set (map (\<lambda>(k, v). if k = p then (k, c) else (k, v)) fs) = fst ` set fs"
    by (simp add: image_image write_keeps_key)
  with True show ?thesis by (simp add: write_file_def path_exists_def)
next
  case False
  then show ?thesis by (simp add: write_file_def path_exists_def)
qed

lemma not_exists_remove: "\<not> path_exists (remove_file fs p) p"
proof
  assume "path_exists (remove_file fs p) p"
  then obtain v where "(p, v) \<in> set (filter (\<lambda>(k, v). k \<noteq> p) fs)"
    unfolding path_exists_def remove_file_def by force
  then show False by simp
qed

text \<open>
  Claim C9. When no face can be extracted from the image of a registration, the call
  answers with a failure and a message, and the state after it is the state before it: no
  row in the table of employees, no entry in the cache, and the folder of faces as it
  was. When the request passes the checks and the image decodes, the message is the one
  about the missing face, the image has been written to a path that was unused, and that
  path does not exist afterwards.
\<close>

theorem register_employee_no_face:
  assumes nf: "\<forall>frame. x_decode_image x (q_image data) = Some frame \<longrightarrow>
                 x_extract_face_embedding x frame = None"
  shows "\<exists>resp. register_employee x now st data = (st, resp) \<and> \<not> success resp \<and>
           message resp \<in> {''Missing required fields'', ''Employee ID already exists'',
                           ''Invalid image'',
                           ''No face detected. Please ensure face is clearly visible.''} \<and>
           (x_strip x (q_employee_id data) \<noteq> [] \<and> x_strip x (q_name data) \<noteq> [] \<and>
            q_image data \<noteq> [] \<and>
            (\<forall>e \<in> set (g_employees st). emp_employee_id e \<noteq> x_strip x (q_employee_id data)) \<and>
            x_decode_image x (q_image data) \<noteq> None \<longrightarrow>
              message resp = ''No face detected. Please ensure face is clearly visible.'' \<and>
              \<not> path_exists (g_faces st) (face_path_of x st data) \<and>
              (\<forall>frame. path_exists (write_file (g_faces st) (face_path_of x st data) (Jpg frame))
                          (face_path_of x st data)) \<and>
              \<not> path_exists (g_faces (fst (register_employee x now st data))) (face_path_of x st data))"
proof -
  define p where "p = face_path_of x st data"
  have fresh: "\<not> path_exists (g_faces st) p"
    unfolding p_def face_path_of_def Let_def by (rule free_path_free)
  have undo: "remove_file (write_file (g_faces st) p c) p = g_faces st" for c
    using fresh by (rule remove_write_fresh)
  have st: "st\<lparr>g_faces := g_faces st\<rparr> = st" by simp
  let ?missing = "x_strip x (q_employee_id data) = [] \<or> x_strip x (q_name data) = [] \<or> q_image data = []"
  let ?known = "\<exists>e \<in> set (g_employees st). emp_employee_id e = x_strip x (q_employee_id data)"
  have run: "register_employee x now st data =
      (st, \<lparr>success = False,
            message = (if ?missing then ''Missing required fields''
                       else if ?known then ''Employee ID already exists''
                       else if x_decode_image x (q_image data) = None then ''Invalid image''
                       else ''No face detected. Please ensure face is clearly visible.'')\<rparr>)"
  proof (cases "x_decode_image x (q_image data)")
    case None
    then show ?thesis by (simp add: register_employee_def Let_def)
  next
    case (Some frame)
    with nf have ex: "x_extract_face_embedding x frame = None" by simp
    have w: "path_exists (write_file (g_faces st) p (Jpg frame)) p" by (rule path_exists_write)
    show ?thesis
      using Some ex w undo[of "Jpg frame"] st
      unfolding p_def face_path_of_def Let_def
      by (simp add: register_employee_def Let_def)
  qed
  have after: "g_faces (fst (register_employee x now st data)) = g_faces st"
    by (simp add: run)
  show ?thesis
    unfolding run after p_def[symmetric]
    using fresh path_exists_write[of "g_faces st" p] by simp
qed

theorem register_employee_no_face_witness:
  "register_employee no_face_externals 0 registry1 request1 =
     (registry1, \<lparr>success = False,
                  message = ''No face detected. Please ensure face is clearly visible.''\<rparr>) \<and>
   face_path_of no_face_externals registry1 request1 = ''faces/E7_eve_1.jpg'' \<and>
   \<not> path_exists (g_faces registry1) ''faces/E7_eve_1.jpg''"
proof -
  have h: "\<forall>frame. x_decode_image no_face_externals (q_image request1) = Some frame \<longrightarrow>
             x_extract_face_embedding no_face_externals frame = None"
    by (simp add: no_face_externals_def)
  have p: "face_path_of no_face_externals registry1 request1 = ''faces/E7_eve_1.jpg''"
    by (simp add: face_path_of_def no_face_externals_def registry1_def request1_def
          free_path.simps path_exists_def numbered_def str_nat.simps digit_def)
  have pre: "x_strip no_face_externals (q_employee_id request1) \<noteq> [] \<and>
      x_strip no_face_externals (q_name request1) \<noteq> [] \<and> q_image request1 \<noteq> [] \<and>
      (\<forall>e \<in> set (g_employees registry1).
          emp_employee_id e \<noteq> x_strip no_face_externals (q_employee_id request1)) \<and>
      x_decode_image no_face_externals (q_image request1) \<noteq> None"
    by (simp add: no_face_externals_def registry1_def request1_def)
  from register_employee_no_face[OF h, of 0 registry1] pre
  obtain resp where
    r: "register_employee no_face_externals 0 registry1 request1 = (registry1, resp)"
      "\<not> success resp"
      "message resp = ''No face detected. Please ensure face is clearly visible.''"
      "\<not> path_exists (g_faces registry1) (face_path_of no_face_externals registry1 request1)"
    by blast
  from r(2,3) have "resp = \<lparr>success = False,
      message = ''No face detected. Please ensure face is clearly visible.''\<rparr>"
    by (cases resp) simp
  with r(1,4) p show ?thesis by simp
qed
end
